theory Spec2Isabelle
  imports Complex_Main
begin

section \<open>Numbers and errors\<close>

text \<open>
  The program computes with JavaScript numbers.  Quantities such as gold, hit points and
  seconds are embedded as \<^typ>\<open>real\<close> (exact arithmetic, so "equal to floating-point
  tolerance" reads as equality); counters, levels, floors and hero ids are embedded as
  \<^typ>\<open>int\<close>.  The two non-finite cases that the code guards against explicitly are written
  out where they occur: \<open>isFinite\<close> in \<open>formatNumber\<close> and the division by a zero
  \<open>perKill\<close> in \<open>simulateOffline\<close>.

  A thrown exception is the value \<open>None\<close> (reading a property of \<open>undefined\<close>) or an
  \<open>Inl\<close> of the error raised.
\<close>

datatype error = TypeError | RangeError

datatype jsnumber = Fin real | NonFinite

section \<open>Utility helpers\<close>

definition SUFFIXES :: "(real \<times> string) list" where
  "SUFFIXES =
    [(10 ^ 33, ''Dc''), (10 ^ 30, ''No''), (10 ^ 27, ''Oc''), (10 ^ 24, ''Sp''),
     (10 ^ 21, ''Sx''), (10 ^ 18, ''Qi''), (10 ^ 15, ''Qa''), (10 ^ 12, ''T''),
     (10 ^ 9, ''B''), (10 ^ 6, ''M''), (10 ^ 3, ''K'')]"

text \<open>
  \<open>Rendered x d s\<close> stands for the string \<open>x.toFixed(d)\<close> followed by the suffix \<open>s\<close>;
  \<open>InfinitySymbol\<close> is the string holding the infinity sign.  \<open>toFixed\<close> raises a
  \<open>RangeError\<close> unless the number of digits lies between 0 and 100.
\<close>

datatype rendering = InfinitySymbol | Rendered real nat string

definition toFixed :: "real \<Rightarrow> int \<Rightarrow> string \<Rightarrow> error + rendering" where
  "toFixed x digits s =
     (if 0 \<le> digits \<and> digits \<le> 100 then Inr (Rendered x (nat digits) s) else Inl RangeError)"

definition formatNumber :: "jsnumber \<Rightarrow> int \<Rightarrow> error + rendering" where
  "formatNumber n digits =
     (case n of
        NonFinite \<Rightarrow> Inr InfinitySymbol
      | Fin x \<Rightarrow>
          (case find (\<lambda>(v, s). \<bar>x\<bar> \<ge> v) SUFFIXES of
             Some (v, s) \<Rightarrow> toFixed (x / v) digits s
           | None \<Rightarrow> toFixed x (if x \<ge> 100 then 0 else digits) []))"

definition clamp :: "real \<Rightarrow> real \<Rightarrow> real \<Rightarrow> real" where
  "clamp n lo hi = max lo (min hi n)"

text \<open>\<open>Math.pow\<close> with an integral exponent is \<open>powi\<close>.\<close>

definition bulkCost :: "real \<Rightarrow> real \<Rightarrow> int \<Rightarrow> int \<Rightarrow> real" where
  "bulkCost base growth currentLevel qty =
     (if qty \<le> 0 then 0
      else let a = base * growth powi currentLevel in
        if growth = 1 then a * of_int qty
        else a * (growth powi qty - 1) / (growth - 1))"

section \<open>Game constants\<close>

abbreviation (input) CLICK_baseDamage :: real where "CLICK_baseDamage \<equiv> 1"
abbreviation (input) CLICK_baseCost :: real where "CLICK_baseCost \<equiv> 10"
abbreviation (input) CLICK_growth :: real where "CLICK_growth \<equiv> 1.15"
abbreviation (input) CLICK_damageGrowth :: real where "CLICK_damageGrowth \<equiv> 1.25"

abbreviation (input) ENEMY_baseHp :: real where "ENEMY_baseHp \<equiv> 10"
abbreviation (input) ENEMY_floorGrowth :: real where "ENEMY_floorGrowth \<equiv> 1.6"
abbreviation (input) ENEMY_bossMultiplier :: real where "ENEMY_bossMultiplier \<equiv> 12"
abbreviation (input) ENEMY_perKillGoldPct :: real where "ENEMY_perKillGoldPct \<equiv> 0.05"
abbreviation (input) ENEMY_bossGoldMultiplier :: real where "ENEMY_bossGoldMultiplier \<equiv> 2"
abbreviation (input) ENEMY_bossTimeSeconds :: real where "ENEMY_bossTimeSeconds \<equiv> 30"
abbreviation (input) ENEMY_killsPerFloor :: int where "ENEMY_killsPerFloor \<equiv> 20"

abbreviation (input) OFFLINE_maxSeconds :: real where "OFFLINE_maxSeconds \<equiv> 12 * 60 * 60"

record HeroDef =
  defId :: int
  defName :: string
  baseDps :: real
  baseCost :: real
  growth :: real

definition HEROES :: "HeroDef list" where
  "HEROES =
    [\<lparr>defId = 1, defName = ''Squire'', baseDps = 1, baseCost = 50, growth = 1.07\<rparr>,
     \<lparr>defId = 2, defName = ''Archer'', baseDps = 5, baseCost = 250, growth = 1.08\<rparr>,
     \<lparr>defId = 3, defName = ''Mage'', baseDps = 25, baseCost = 1000, growth = 1.09\<rparr>,
     \<lparr>defId = 4, defName = ''Knight'', baseDps = 125, baseCost = 5000, growth = 1.10\<rparr>,
     \<lparr>defId = 5, defName = ''Assassin'', baseDps = 625, baseCost = 25000, growth = 1.11\<rparr>,
     \<lparr>defId = 6, defName = ''Paladin'', baseDps = 3125, baseCost = 125000, growth = 1.12\<rparr>,
     \<lparr>defId = 7, defName = ''Warlock'', baseDps = 15625, baseCost = 600000, growth = 1.13\<rparr>,
     \<lparr>defId = 8, defName = ''Ranger'', baseDps = 78125, baseCost = 3000000, growth = 1.14\<rparr>,
     \<lparr>defId = 9, defName = ''Berserker'', baseDps = 390625, baseCost = 15000000, growth = 1.15\<rparr>,
     \<lparr>defId = 10, defName = ''Archmage'', baseDps = 1953125, baseCost = 80000000, growth = 1.16\<rparr>]"

section \<open>Types\<close>

record Enemy =
  maxHp :: real
  hp :: real
  isBoss :: bool
  bossTimeLeft :: "real option"

record HeroState =
  heroId :: int
  level :: int

text \<open>
  The \<open>enemy\<close> field of a save is a reference to an \<open>Enemy\<close> object.  The record is
  parametric in what that field holds: the object's contents (type \<open>State\<close>, used wherever
  only the returned value matters) or its address in a store (type \<open>StateRef\<close>, used where
  sharing between the caller's state and the returned one matters).
\<close>

record 'e SaveData =
  gold :: real
  lifetimeGold :: real
  clickLevel :: int
  floorNo :: int
  killsThisFloor :: int
  heroes :: "HeroState list"
  enemy :: "'e option"
  lastSeen :: "int option"

type_synonym State = "Enemy SaveData"

section \<open>Encounters, rewards and damage per second\<close>

definition heroesById :: "int \<Rightarrow> HeroDef option" where
  "heroesById i = find (\<lambda>h. defId h = i) HEROES"

text \<open>
  The \<open>reduce\<close> over the owned heroes.  A hero id that is not in the table makes
  \<open>heroesById[hs.id]\<close> undefined, and reading \<open>baseDps\<close> from it throws.
\<close>

fun dpsFrom :: "real \<Rightarrow> HeroState list \<Rightarrow> real option" where
  "dpsFrom acc [] = Some acc"
| "dpsFrom acc (hs # rest) =
     (case heroesById (heroId hs) of
        None \<Rightarrow> None
      | Some d \<Rightarrow> dpsFrom (acc + baseDps d * of_int (level hs)) rest)"

definition totalDps :: "HeroState list \<Rightarrow> real option" where
  "totalDps hs = dpsFrom 0 hs"

definition makeEnemy :: "int \<Rightarrow> bool \<Rightarrow> Enemy" where
  "makeEnemy fl boss =
     (let base = ENEMY_baseHp * ENEMY_floorGrowth powi (fl - 1);
          mhp = (if boss then base * ENEMY_bossMultiplier else base)
      in \<lparr>maxHp = mhp, hp = mhp, isBoss = boss,
          bossTimeLeft = (if boss then Some ENEMY_bossTimeSeconds else None)\<rparr>)"

definition goldRewardFor :: "Enemy \<Rightarrow> int \<Rightarrow> real" where
  "goldRewardFor en fl =
     (let base = maxHp en * ENEMY_perKillGoldPct * (1 + of_int fl * 0.02)
      in if isBoss en then base * ENEMY_bossGoldMultiplier else base)"

section \<open>The combat simulator\<close>

text \<open>The body of \<open>if (s.enemy.bossTimeLeft === 0 && s.enemy.hp > 0)\<close> in \<open>tick\<close>.\<close>

definition bossEscapes :: "State \<Rightarrow> State" where
  "bossEscapes s =
     (let newFloor = max 1 (floorNo s - 1)
      in s\<lparr>floorNo := newFloor, killsThisFloor := 0, enemy := Some (makeEnemy newFloor False)\<rparr>)"

text \<open>The body of \<open>if (s.enemy.hp === 0)\<close> in \<open>tick\<close>; \<open>e\<close> is \<open>s.enemy\<close>.\<close>

definition enemyKilled :: "State \<Rightarrow> Enemy \<Rightarrow> State" where
  "enemyKilled s e =
     (let reward = goldRewardFor e (floorNo s);
          s = s\<lparr>gold := gold s + reward, lifetimeGold := lifetimeGold s + reward\<rparr>
      in if isBoss e then
           s\<lparr>floorNo := floorNo s + 1, killsThisFloor := 0,
             enemy := Some (makeEnemy (floorNo s + 1) False)\<rparr>
         else
           let kills = killsThisFloor s + 1 in
           if kills \<ge> ENEMY_killsPerFloor then
             s\<lparr>killsThisFloor := ENEMY_killsPerFloor, enemy := Some (makeEnemy (floorNo s) True)\<rparr>
           else
             s\<lparr>killsThisFloor := kills, enemy := Some (makeEnemy (floorNo s) False)\<rparr>)"

text \<open>The first write of \<open>tick\<close> to the encounter: damage, floored at 0.\<close>

definition damaged :: "real \<Rightarrow> real \<Rightarrow> Enemy \<Rightarrow> Enemy" where
  "damaged dps dt e = (if dps > 0 \<and> hp e > 0 then e\<lparr>hp := max 0 (hp e - dps * dt)\<rparr> else e)"

text \<open>
  The part of \<open>tick\<close> after the damage per second is known: \<open>s\<close> is the copied save and
  \<open>e0\<close> its encounter.
\<close>

definition fight :: "real \<Rightarrow> real \<Rightarrow> State \<Rightarrow> Enemy \<Rightarrow> State" where
  "fight dps dt s e0 =
     (let e1 = damaged dps dt e0 in
      case (if isBoss e1 then bossTimeLeft e1 else None) of
        Some t \<Rightarrow>
          let e2 = e1\<lparr>bossTimeLeft := Some (max 0 (t - dt))\<rparr> in
          if max 0 (t - dt) = 0 \<and> hp e2 > 0 then bossEscapes (s\<lparr>enemy := Some e2\<rparr>)
          else if hp e2 = 0 then enemyKilled (s\<lparr>enemy := Some e2\<rparr>) e2
          else s\<lparr>enemy := Some e2\<rparr>
      | None \<Rightarrow>
          if hp e1 = 0 then enemyKilled (s\<lparr>enemy := Some e1\<rparr>) e1
          else s\<lparr>enemy := Some e1\<rparr>)"

text \<open>
  \<open>tick now state dt\<close> is the state returned by \<open>tick(state, dt)\<close> when \<open>Date.now()\<close>
  reads \<open>now\<close>, with the encounter it refers to as it is at the return.
\<close>

definition tick :: "int \<Rightarrow> State \<Rightarrow> real \<Rightarrow> State option" where
  "tick now state dt =
     (let s = state\<lparr>lastSeen := Some now\<rparr> in
      case enemy s of
        None \<Rightarrow> Some s
      | Some e0 \<Rightarrow>
          (case totalDps (heroes s) of
             None \<Rightarrow> None
           | Some dps \<Rightarrow> Some (fight dps dt s e0)))"

text \<open>
  The game loop calls \<open>tick\<close> once per timer period, each call with the measured \<open>dt\<close>
  and its own clock reading.
\<close>

fun ticks :: "State \<Rightarrow> (int \<times> real) list \<Rightarrow> State option" where
  "ticks s [] = Some s"
| "ticks s ((now, dt) # rest) =
     (case tick now s dt of None \<Rightarrow> None | Some s' \<Rightarrow> ticks s' rest)"

subsection \<open>The same function over a store of encounter objects\<close>

text \<open>
  \<open>let s = { ...state }\<close> copies the fields of the save, so \<open>s.enemy\<close> and
  \<open>state.enemy\<close> are one object.  Here the store is the list of all \<open>Enemy\<close> objects
  allocated so far, an address is an index into it, and \<open>makeEnemy\<close> allocates at the end.
  A reference held by a save always points into the store.
\<close>

type_synonym StateRef = "nat SaveData"

definition deref :: "Enemy list \<Rightarrow> StateRef \<Rightarrow> State" where
  "deref store s =
     \<lparr>gold = gold s, lifetimeGold = lifetimeGold s, clickLevel = clickLevel s,
      floorNo = floorNo s, killsThisFloor = killsThisFloor s, heroes = heroes s,
      enemy = map_option (\<lambda>a. store ! a) (enemy s), lastSeen = lastSeen s\<rparr>"

definition bossEscapesRef :: "Enemy list \<Rightarrow> StateRef \<Rightarrow> Enemy list \<times> StateRef" where
  "bossEscapesRef store s =
     (let newFloor = max 1 (floorNo s - 1)
      in (store @ [makeEnemy newFloor False],
          s\<lparr>floorNo := newFloor, killsThisFloor := 0, enemy := Some (length store)\<rparr>))"

definition enemyKilledRef :: "Enemy list \<Rightarrow> StateRef \<Rightarrow> Enemy \<Rightarrow> Enemy list \<times> StateRef" where
  "enemyKilledRef store s e =
     (let reward = goldRewardFor e (floorNo s);
          s = s\<lparr>gold := gold s + reward, lifetimeGold := lifetimeGold s + reward\<rparr>
      in if isBoss e then
           (store @ [makeEnemy (floorNo s + 1) False],
            s\<lparr>floorNo := floorNo s + 1, killsThisFloor := 0, enemy := Some (length store)\<rparr>)
         else
           let kills = killsThisFloor s + 1 in
           if kills \<ge> ENEMY_killsPerFloor then
             (store @ [makeEnemy (floorNo s) True],
              s\<lparr>killsThisFloor := ENEMY_killsPerFloor, enemy := Some (length store)\<rparr>)
           else
             (store @ [makeEnemy (floorNo s) False],
              s\<lparr>killsThisFloor := kills, enemy := Some (length store)\<rparr>))"

definition fightRef :: "real \<Rightarrow> real \<Rightarrow> Enemy list \<Rightarrow> StateRef \<Rightarrow> nat \<Rightarrow> Enemy list \<times> StateRef" where
  "fightRef dps dt store s a =
     (let store1 = store[a := damaged dps dt (store ! a)] in
      case (if isBoss (store1 ! a) then bossTimeLeft (store1 ! a) else None) of
        Some t \<Rightarrow>
          let store2 = store1[a := (store1 ! a)\<lparr>bossTimeLeft := Some (max 0 (t - dt))\<rparr>] in
          if max 0 (t - dt) = 0 \<and> hp (store2 ! a) > 0 then bossEscapesRef store2 s
          else if hp (store2 ! a) = 0 then enemyKilledRef store2 s (store2 ! a)
          else (store2, s)
      | None \<Rightarrow>
          if hp (store1 ! a) = 0 then enemyKilledRef store1 s (store1 ! a)
          else (store1, s))"

definition tickRef :: "int \<Rightarrow> Enemy list \<Rightarrow> StateRef \<Rightarrow> real \<Rightarrow> (Enemy list \<times> StateRef) option" where
  "tickRef now store state dt =
     (let s = state\<lparr>lastSeen := Some now\<rparr> in
      case enemy s of
        None \<Rightarrow> Some (store, s)
      | Some a \<Rightarrow>
          (case totalDps (heroes s) of
             None \<Rightarrow> None
           | Some dps \<Rightarrow> Some (fightRef dps dt store s a)))"

section \<open>The offline accelerator\<close>

text \<open>
  The variables of \<open>simulateOffline\<close> that its loop and \<open>onKill\<close> update.  When the loop
  is left, \<open>timeLeft\<close> is positive only if the \<open>safety\<close> counter ran out.
\<close>

record Progress =
  st :: State
  timeLeft :: real
  kills :: int
  goldEarned :: real
  floorsCleared :: int

record Report =
  rep_seconds :: real
  rep_kills :: int
  rep_gold :: real
  rep_floors :: int

definition onKill :: "Enemy \<Rightarrow> Progress \<Rightarrow> Progress" where
  "onKill en p =
     (let s = st p;
          reward = goldRewardFor en (floorNo s);
          s = s\<lparr>gold := gold s + reward, lifetimeGold := lifetimeGold s + reward\<rparr>;
          p = p\<lparr>goldEarned := goldEarned p + reward, kills := kills p + 1\<rparr>
      in if isBoss en then
           p\<lparr>floorsCleared := floorsCleared p + 1,
             st := s\<lparr>floorNo := floorNo s + 1, killsThisFloor := 0,
                     enemy := Some (makeEnemy (floorNo s + 1) False)\<rparr>\<rparr>
         else
           let k = killsThisFloor s + 1 in
           if k \<ge> ENEMY_killsPerFloor then
             p\<lparr>st := s\<lparr>killsThisFloor := ENEMY_killsPerFloor,
                       enemy := Some (makeEnemy (floorNo s) True)\<rparr>\<rparr>
           else
             p\<lparr>st := s\<lparr>killsThisFloor := k, enemy := Some (makeEnemy (floorNo s) False)\<rparr>\<rparr>)"

text \<open>
  The two ways an iteration ends the loop by \<open>break\<close>: the encounter, which is
  \<open>s.enemy\<close> itself, is written in place and \<open>timeLeft\<close> becomes 0.
\<close>

definition partialDamage :: "Enemy \<Rightarrow> Progress \<Rightarrow> Progress" where
  "partialDamage en p = p\<lparr>st := (st p)\<lparr>enemy := Some en\<rparr>, timeLeft := 0\<rparr>"

text \<open>The last branch of the loop: the boss escapes after \<open>spend\<close> seconds.\<close>

definition bossTimesOut :: "real \<Rightarrow> Progress \<Rightarrow> Progress" where
  "bossTimesOut spend p =
     (let s = st p; newFloor = max 1 (floorNo s - 1)
      in p\<lparr>timeLeft := timeLeft p - spend,
           st := s\<lparr>floorNo := newFloor, killsThisFloor := 0,
                   enemy := Some (makeEnemy newFloor False)\<rparr>\<rparr>)"

text \<open>
  One pass through the body of the \<open>while\<close> loop, entered with \<open>timeLeft > 0\<close> and
  \<open>enemy = s.enemy\<close>; the pass ends in \<open>continue\<close> or in \<open>break\<close>.  With
  \<open>perKill = 0\<close> the quotient \<open>timeLeft / perKill\<close> is \<open>Infinity\<close>, and \<open>Math.min\<close>
  returns \<open>remainingToBoss\<close>.
\<close>

datatype flow = Continue Progress | Break Progress

definition iteration :: "real \<Rightarrow> Enemy \<Rightarrow> Progress \<Rightarrow> flow" where
  "iteration dps en p =
     (if \<not> isBoss en then
        let timeToKill = hp en / dps in
        if hp en < maxHp en then
          if timeLeft p \<ge> timeToKill then
            Continue (onKill en (p\<lparr>timeLeft := timeLeft p - timeToKill\<rparr>))
          else Break (partialDamage (en\<lparr>hp := max 0 (hp en - dps * timeLeft p)\<rparr>) p)
        else
          let remainingToBoss = ENEMY_killsPerFloor - killsThisFloor (st p);
              perKill = maxHp en / dps;
              canBulk = (if perKill = 0 then remainingToBoss
                         else min \<lfloor>timeLeft p / perKill\<rfloor> remainingToBoss)
          in
          if canBulk \<ge> 1 then
            Continue ((onKill en ^^ nat canBulk) (p\<lparr>timeLeft := timeLeft p - of_int canBulk * perKill\<rparr>))
          else if timeLeft p \<ge> perKill then
            Continue (onKill en (p\<lparr>timeLeft := timeLeft p - perKill\<rparr>))
          else Break (partialDamage (en\<lparr>hp := max 0 (hp en - dps * timeLeft p)\<rparr>) p)
      else
        let timeToKill = hp en / dps;
            timeAvailable =
              min (case bossTimeLeft en of None \<Rightarrow> ENEMY_bossTimeSeconds | Some t \<Rightarrow> t)
                  (timeLeft p)
        in
        if timeToKill \<le> timeAvailable then
          Continue (onKill en (p\<lparr>timeLeft := timeLeft p - timeToKill\<rparr>))
        else
          let left = (case bossTimeLeft en of None \<Rightarrow> 0 | Some t \<Rightarrow> t) in
          if timeLeft p < left then
            Break (partialDamage
                     (en\<lparr>hp := max 0 (hp en - dps * timeLeft p),
                         bossTimeLeft := Some (left - timeLeft p)\<rparr>) p)
          else Continue (bossTimesOut left p))"

text \<open>
  The loop \<open>while (timeLeft > 0 && safety-- > 0 && s.enemy)\<close>; the first argument is the
  value of \<open>safety\<close>.
\<close>

fun offlineLoop :: "nat \<Rightarrow> real \<Rightarrow> Progress \<Rightarrow> Progress" where
  "offlineLoop 0 dps p = p"
| "offlineLoop (Suc safety) dps p =
     (if timeLeft p > 0 then
        (case enemy (st p) of
           None \<Rightarrow> p
         | Some en \<Rightarrow>
             (case iteration dps en p of
                Continue p' \<Rightarrow> offlineLoop safety dps p'
              | Break p' \<Rightarrow> p'))
      else p)"

definition simulateOffline :: "int \<Rightarrow> State \<Rightarrow> real \<Rightarrow> (State \<times> Report) option" where
  "simulateOffline now state seconds =
     (let s = (case enemy state of
                 None \<Rightarrow> state\<lparr>enemy := Some (makeEnemy (floorNo state) False)\<rparr>
               | Some _ \<Rightarrow> state)
      in case totalDps (heroes s) of
           None \<Rightarrow> None
         | Some dps \<Rightarrow>
             if dps \<le> 0 \<or> seconds \<le> 0 then
               Some (s\<lparr>lastSeen := Some now\<rparr>,
                     \<lparr>rep_seconds = seconds, rep_kills = 0, rep_gold = 0, rep_floors = 0\<rparr>)
             else
               let p = offlineLoop 200000 dps
                         \<lparr>st = s, timeLeft = seconds, kills = 0, goldEarned = 0, floorsCleared = 0\<rparr>
               in Some ((st p)\<lparr>lastSeen := Some now\<rparr>,
                        \<lparr>rep_seconds = seconds, rep_kills = kills p, rep_gold = goldEarned p,
                         rep_floors = floorsCleared p\<rparr>))"

section \<open>Manual attack and purchases\<close>

definition clickDamage :: "int \<Rightarrow> real" where
  "clickDamage lvl = CLICK_baseDamage * CLICK_damageGrowth powi (lvl - 1)"

text \<open>The updater that \<open>handleClick\<close> passes to \<open>setSave\<close>.\<close>

definition applyClick :: "real \<Rightarrow> State \<Rightarrow> State" where
  "applyClick dmg s =
     (case enemy s of
        None \<Rightarrow> s
      | Some e \<Rightarrow>
          let newEnemy = e\<lparr>hp := max 0 (hp e - dmg)\<rparr> in
          if hp newEnemy = 0 then
            let reward = goldRewardFor newEnemy (floorNo s);
                newGold = gold s + reward;
                newLifetime = lifetimeGold s + reward
            in if isBoss newEnemy then
                 s\<lparr>gold := newGold, lifetimeGold := newLifetime,
                   enemy := Some (makeEnemy (floorNo s + 1) False),
                   floorNo := floorNo s + 1, killsThisFloor := 0\<rparr>
               else
                 let kills = killsThisFloor s + 1 in
                 if kills \<ge> ENEMY_killsPerFloor then
                   s\<lparr>gold := newGold, lifetimeGold := newLifetime,
                     enemy := Some (makeEnemy (floorNo s) True),
                     killsThisFloor := ENEMY_killsPerFloor\<rparr>
                 else
                   s\<lparr>gold := newGold, lifetimeGold := newLifetime,
                     enemy := Some (makeEnemy (floorNo s) False), killsThisFloor := kills\<rparr>
          else s\<lparr>enemy := Some newEnemy\<rparr>)"

text \<open>
  In \<open>handleClick\<close> and \<open>buyHeroLevels\<close> the rendered \<open>save\<close> and the state the updater
  receives are taken to be the same state.
\<close>

definition handleClick :: "State \<Rightarrow> State" where
  "handleClick save =
     (case enemy save of
        None \<Rightarrow> save
      | Some e \<Rightarrow> if hp e = 0 then save else applyClick (clickDamage (clickLevel save)) save)"

definition buyClickUpgrade :: "State \<Rightarrow> int \<Rightarrow> State" where
  "buyClickUpgrade s qty =
     (let cost = bulkCost CLICK_baseCost CLICK_growth (clickLevel s - 1) qty
      in if gold s < cost then s
         else s\<lparr>gold := gold s - cost, clickLevel := clickLevel s + qty\<rparr>)"

definition heroLevels :: "State \<Rightarrow> int \<Rightarrow> int" where
  "heroLevels save i =
     (case find (\<lambda>h. heroId h = i) (heroes save) of None \<Rightarrow> 0 | Some h \<Rightarrow> level h)"

text \<open>\<open>HEROES.find(...)!\<close> is undefined for an id outside the table, and \<open>hero.baseCost\<close> throws.\<close>

definition buyHeroLevels :: "State \<Rightarrow> int \<Rightarrow> int \<Rightarrow> State option" where
  "buyHeroLevels s i qty =
     (case find (\<lambda>h. defId h = i) HEROES of
        None \<Rightarrow> None
      | Some hero \<Rightarrow>
          let current = heroLevels s i;
              cost = bulkCost (baseCost hero) (growth hero) current qty
          in Some (if gold s < cost then s
                   else s\<lparr>gold := gold s - cost,
                          heroes := map (\<lambda>hs. if heroId hs = i then hs\<lparr>level := level hs + qty\<rparr> else hs)
                                      (heroes s)\<rparr>))"

section \<open>Notions used in the properties\<close>

text \<open>The state the application starts from when nothing is stored.\<close>

definition initialSave :: "int \<Rightarrow> State" where
  "initialSave now =
     \<lparr>gold = 0, lifetimeGold = 0, clickLevel = 1, floorNo = 1, killsThisFloor = 0,
      heroes = map (\<lambda>h. \<lparr>heroId = defId h, level = 0\<rparr>) HEROES, enemy = None,
      lastSeen = Some now\<rparr>"

text \<open>
  The kill counter is at most \<open>killsPerFloor\<close>, and it is at the cap exactly while the
  encounter is a boss.
\<close>

definition counterInv :: "State \<Rightarrow> bool" where
  "counterInv s \<longleftrightarrow>
     killsThisFloor s \<le> ENEMY_killsPerFloor \<and>
     (case enemy s of
        None \<Rightarrow> killsThisFloor s < ENEMY_killsPerFloor
      | Some e \<Rightarrow> isBoss e \<longleftrightarrow> killsThisFloor s = ENEMY_killsPerFloor)"

text \<open>
  What the offline loop does to its variables, as a sequence of events: a kill, a boss
  escape, a partial damage that ends the loop, and time being spent.
\<close>

datatype event = Kill Enemy | Escape real | Damage Enemy | Elapse real

fun replay :: "event list \<Rightarrow> Progress \<Rightarrow> Progress" where
  "replay [] p = p"
| "replay (Kill en # evs) p = replay evs (onKill en p)"
| "replay (Escape spend # evs) p = replay evs (bossTimesOut spend p)"
| "replay (Damage en # evs) p = replay evs (partialDamage en p)"
| "replay (Elapse x # evs) p = replay evs (p\<lparr>timeLeft := timeLeft p - x\<rparr>)"

fun isKill :: "event \<Rightarrow> bool" where
  "isKill (Kill en) = True"
| "isKill _ = False"

fun isBossKill :: "event \<Rightarrow> bool" where
  "isBossKill (Kill en) = isBoss en"
| "isBossKill _ = False"

text \<open>
  A state in the middle of a fight: the encounter is alive and not above its maximum; a
  regular encounter is one of the current floor with the counter below the cap, a boss has
  a running timer.
\<close>

definition liveEncounter :: "State \<Rightarrow> bool" where
  "liveEncounter s =
     (case enemy s of
        None \<Rightarrow> False
      | Some e \<Rightarrow>
          0 < hp e \<and> hp e \<le> maxHp e \<and>
          (if isBoss e then (case bossTimeLeft e of None \<Rightarrow> False | Some t \<Rightarrow> 0 < t)
           else maxHp e = maxHp (makeEnemy (floorNo s) False) \<and>
                killsThisFloor s < ENEMY_killsPerFloor))"

text \<open>The time until the encounter is resolved: its death, or for a boss its escape.\<close>

definition untilResolved :: "real \<Rightarrow> Enemy \<Rightarrow> real" where
  "untilResolved dps e =
     (case (if isBoss e then bossTimeLeft e else None) of
        None \<Rightarrow> hp e / dps
      | Some t \<Rightarrow> min (hp e / dps) t)"

text \<open>
  A schedule of ticks in which no tick runs past the moment at which the encounter it
  starts with is resolved, so that no damage and no time is lost at a kill or an escape.
\<close>

fun noOvershoot :: "real \<Rightarrow> State \<Rightarrow> (int \<times> real) list \<Rightarrow> bool" where
  "noOvershoot dps s [] = True"
| "noOvershoot dps s ((now, dt) # rest) =
     (0 \<le> dt \<and>
      (case enemy s of None \<Rightarrow> False | Some e \<Rightarrow> dt \<le> untilResolved dps e) \<and>
      (case tick now s dt of None \<Rightarrow> False | Some s' \<Rightarrow> noOvershoot dps s' rest))"

text \<open>
  An event of the offline loop is in order when it is applied to an encounter of the kind it
  names: a kill of a regular enemy while a regular enemy is fought, a kill or an escape of a
  boss while a boss is fought, damage to the encounter being fought.
\<close>

fun legal :: "event list \<Rightarrow> Progress \<Rightarrow> bool" where
  "legal [] p = True"
| "legal (Kill en # evs) p =
     ((case enemy (st p) of None \<Rightarrow> False | Some cur \<Rightarrow> isBoss cur = isBoss en) \<and>
      legal evs (onKill en p))"
| "legal (Escape spend # evs) p =
     ((case enemy (st p) of None \<Rightarrow> False | Some cur \<Rightarrow> isBoss cur) \<and>
      legal evs (bossTimesOut spend p))"
| "legal (Damage en # evs) p =
     ((case enemy (st p) of None \<Rightarrow> False
       | Some cur \<Rightarrow> isBoss cur = isBoss en \<and> maxHp cur = maxHp en) \<and>
      legal evs (partialDamage en p))"
| "legal (Elapse x # evs) p = legal evs (p\<lparr>timeLeft := timeLeft p - x\<rparr>)"

text \<open>
  \<open>shortOf n x y\<close>: the quantity \<open>x\<close> stays below the positive bound \<open>y\<close> by more than
  the rounding that \<open>n\<close> ticks in double precision can add up to (a relative
  \<open>2\<^sup>-\<^sup>5\<^sup>2\<close> for each tick and for the few operations of one loop pass).
  \<open>beforeResolution dps s n T\<close>: in state \<open>s\<close>, \<open>T\<close> seconds split into \<open>n\<close> ticks
  end short of the moment the encounter is resolved.  The encounter is the one of the state,
  alive; or, when the state has none, the one that \<open>simulateOffline\<close> creates.  When there
  is damage, it is resolved by its death, which \<open>tick\<close> reads from \<open>hp\<close> and the offline
  loop, for a regular enemy not yet hit, from \<open>maxHp\<close>.  A boss is resolved by its
  escape as well, when its timer runs out; the offline loop lets a boss that has no timer
  escape as soon as it runs.
\<close>

definition shortOf :: "nat \<Rightarrow> real \<Rightarrow> real \<Rightarrow> bool" where
  "shortOf n x y \<longleftrightarrow> 0 < y \<and> x \<le> y * (1 - (real n + 4) / 2 ^ 52)"


text \<open>
  Auxiliary notions for comparing ticks with the offline loop.  \<open>view\<close> is what the loop
  reads and writes besides its counters, with \<open>lastSeen\<close> (which only \<open>tick\<close> sets)
  blanked; \<open>worn dps x e\<close> is the encounter after \<open>x\<close> seconds of damage that do not
  resolve it; \<open>settled dps s e\<close> is the state right after the encounter is resolved, by its
  death or, for a boss whose timer runs out first, by its escape.
\<close>

definition view :: "Progress \<Rightarrow> State \<times> real" where
  "view p = ((st p)\<lparr>lastSeen := None\<rparr>, timeLeft p)"

definition worn :: "real \<Rightarrow> real \<Rightarrow> Enemy \<Rightarrow> Enemy" where
  "worn dps x e =
     e\<lparr>hp := hp e - dps * x,
       bossTimeLeft := (if isBoss e then map_option (\<lambda>t. t - x) (bossTimeLeft e) else bossTimeLeft e)\<rparr>"

definition settled :: "real \<Rightarrow> State \<Rightarrow> Enemy \<Rightarrow> State" where
  "settled dps s e =
     (case (if isBoss e then bossTimeLeft e else None) of
        None \<Rightarrow> enemyKilled s e
      | Some t \<Rightarrow> if t < hp e / dps then bossEscapes s else enemyKilled s e)"

fun flowView :: "flow \<Rightarrow> bool \<times> State \<times> real" where
  "flowView (Continue p) = (True, view p)"
| "flowView (Break p) = (False, view p)"

section \<open>The content table\<close>

lemma heroesById_Some_iff: "(\<exists>d. heroesById i = Some d) \<longleftrightarrow> 1 \<le> i \<and> i \<le> 10"
  by (auto simp: heroesById_def HEROES_def) presburger

section \<open>The cost of a bulk purchase\<close>

lemma sum_int_range: "(\<Sum>i = 0..<int n. f i) = (\<Sum>k<n. f (int k))"
proof -
  have "{0..<int n} = int ` {..<n}"
    using image_int_atLeastLessThan[of 0 n] by (simp add: lessThan_atLeast0)
  then show ?thesis by (simp add: sum.reindex)
qed

lemma powi_shift:
  assumes "g \<noteq> 0 \<or> 0 \<le> lvl"
  shows "(g::real) powi (lvl + int k) = g powi lvl * g ^ k"
proof (cases "g = 0")
  case False then show ?thesis by (simp add: power_int_add)
next
  case True
  with assms have "0 \<le> lvl" by simp
  then show ?thesis
    by (simp add: power_int_def nat_add_distrib power_add)
qed

lemma bulk_pos:
  assumes "g \<noteq> 0 \<or> 0 \<le> lvl" 
  shows "bulkCost base g lvl (int (Suc n)) = (\<Sum>k<Suc n. base * g powi (lvl + int k))"
proof -
  have s: "(\<Sum>k<Suc n. base * g powi (lvl + int k)) = base * g powi lvl * (\<Sum>k<Suc n. g ^ k)"
    unfolding sum_distrib_left by (rule sum.cong) (simp_all add: powi_shift[OF assms] mult.assoc)
  show ?thesis
  proof (cases "g = 1")
    case True
    then show ?thesis unfolding s by (simp add: bulkCost_def)
  next
    case False
    have "g powi int (Suc n) = g ^ Suc n" by (rule power_int_of_nat)
    with False show ?thesis unfolding s
      by (simp add: bulkCost_def geometric_sum Let_def del: sum.lessThan_Suc of_nat_Suc power_Suc)
  qed
qed

text \<open>
  Claim C2.  Wherever \<open>Math.pow(growth, currentLevel)\<close> is finite (a non-zero ratio, or
  a level that is not negative), \<open>bulkCost base growth currentLevel qty\<close> is the sum of
  \<open>base * growth ^ (currentLevel + i)\<close> over the levels \<open>i\<close> from 0 up to but excluding
  \<open>qty\<close>; it is 0 when \<open>qty \<le> 0\<close>, and \<open>base * qty\<close> when the ratio is 1 and a
  positive quantity is bought.
\<close>

theorem bulkCost_matches_naive_sum:
  assumes "g \<noteq> 0 \<or> 0 \<le> currentLevel"
  shows "bulkCost base g currentLevel qty = (\<Sum>i = 0..<qty. base * g powi (currentLevel + i))
     \<and> (qty \<le> 0 \<longrightarrow> bulkCost base g currentLevel qty = 0)
     \<and> (0 < qty \<longrightarrow> bulkCost base 1 currentLevel qty = base * of_int qty)"
proof -
  have a: "bulkCost base g currentLevel qty = (\<Sum>i = 0..<qty. base * g powi (currentLevel + i))"
  proof (cases "qty \<le> 0")
    case True then show ?thesis by (simp add: bulkCost_def)
  next
    case False
    then obtain n where n: "qty = int (Suc n)"
      by (metis not_le zero_less_imp_eq_int gr0_implies_Suc)
    show ?thesis unfolding n sum_int_range by (rule bulk_pos[OF assms])
  qed
  show ?thesis using a by (simp add: bulkCost_def)
qed

theorem bulkCost_matches_naive_sum_witness:
  "bulkCost 10 1.15 0 2 = 21.5 \<and> (\<Sum>i = 0..<(2::int). 10 * (1.15::real) powi (0 + i)) = 21.5"
proof -
  have h: "(1.15::real) \<noteq> 0 \<or> (0::int) \<le> 0" by simp
  have v: "bulkCost 10 1.15 0 2 = 21.5" by (simp add: bulkCost_def power2_eq_square)
  from bulkCost_matches_naive_sum[OF h, of 10 2] v show ?thesis by simp
qed

section \<open>Number formatting\<close>

lemma find_SUFFIXES_None: "\<bar>x\<bar> < 1000 \<Longrightarrow> find (\<lambda>(v, s). \<bar>x\<bar> \<ge> v) SUFFIXES = None"
  by (simp add: SUFFIXES_def)

lemma formatNumber_small:
  "\<bar>x\<bar> < 1000 \<Longrightarrow> formatNumber (Fin x) digits = toFixed x (if x \<ge> 100 then 0 else digits) []"
  by (simp add: formatNumber_def find_SUFFIXES_None)

text \<open>
  Below a thousand the number of decimals is chosen by the test \<open>n \<ge> 100\<close> on the number
  itself, not on its absolute value: \<open>formatNumber(-150, 2)\<close> is \<open>(-150).toFixed(2)\<close>,
  with two decimals, where fixing by \<open>|n| \<ge> 100\<close> gives \<open>(-150).toFixed(0)\<close>.
\<close>

theorem formatNumber_negative_counterexample:
  "formatNumber (Fin (- 150)) 2 = Inr (Rendered (- 150) 2 []) \<and>
   toFixed (- 150) (if \<bar>- 150 :: real\<bar> \<ge> 100 then 0 else 2) [] = Inr (Rendered (- 150) 0 [])"
  by (simp add: formatNumber_def SUFFIXES_def toFixed_def)

text \<open>
  Claim C9, amended.  For every finite \<open>n\<close> with \<open>-100 < n < 1e3\<close>, which includes every
  number the application formats below a thousand (they are all non-negative),
  \<open>formatNumber(n, digits)\<close> fixes \<open>n\<close> to 0 decimal places if \<open>|n| \<ge> 100\<close> and to
  \<open>digits\<close> decimal places otherwise; any non-finite input renders as the infinity symbol.
\<close>

theorem formatNumber_below_thousand:
  "(- 100 < x \<and> x < 1000 \<longrightarrow>
      formatNumber (Fin x) digits = toFixed x (if \<bar>x\<bar> \<ge> 100 then 0 else digits) []) \<and>
   formatNumber NonFinite digits = Inr InfinitySymbol"
proof -
  have "formatNumber (Fin x) digits = toFixed x (if \<bar>x\<bar> \<ge> 100 then 0 else digits) []"
    if "- 100 < x" and "x < 1000"
  proof -
    from that have "\<bar>x\<bar> < 1000" by simp
    moreover from that have "(x \<ge> 100) = (\<bar>x\<bar> \<ge> 100)" by auto
    ultimately show ?thesis by (simp add: formatNumber_small)
  qed
  then show ?thesis by (simp add: formatNumber_def)
qed

theorem formatNumber_below_thousand_witness:
  "formatNumber (Fin 150) 2 = Inr (Rendered 150 0 []) \<and>
   formatNumber (Fin 42.5) 2 = Inr (Rendered 42.5 2 [])"
  using formatNumber_below_thousand[of 150 2] formatNumber_below_thousand[where x = "42.5" and digits = 2]
  by (simp add: toFixed_def)

section \<open>Properties of a single tick\<close>

lemma damaged_sel [simp]:
  "isBoss (damaged dps dt e) = isBoss e"
  "bossTimeLeft (damaged dps dt e) = bossTimeLeft e"
  "maxHp (damaged dps dt e) = maxHp e"
  by (simp_all add: damaged_def)

text \<open>
  Claim C3.  When the timer of a boss is driven to exactly 0 by a tick and the boss still has
  hit points left after the damage of that tick, the tick returns the state with the floor one
  lower but not below 1, the kill counter at 0 and a fresh regular encounter of the new floor;
  nothing else but \<open>lastSeen\<close> differs from the input, so no kill is resolved in that call.
\<close>

theorem tick_boss_escape:
  assumes "enemy s = Some e" and "isBoss e" and "bossTimeLeft e = Some t"
    and "totalDps (heroes s) = Some dps"
    and "max 0 (t - dt) = 0" and "hp (damaged dps dt e) > 0"
  shows "tick now s dt =
           Some (s\<lparr>lastSeen := Some now, floorNo := max 1 (floorNo s - 1), killsThisFloor := 0,
                   enemy := Some (makeEnemy (max 1 (floorNo s - 1)) False)\<rparr>)
         \<and> (floorNo s \<ge> 2 \<longrightarrow> max 1 (floorNo s - 1) = floorNo s - 1)
         \<and> (floorNo s = 1 \<longrightarrow> max 1 (floorNo s - 1) = 1)
         \<and> \<not> isBoss (makeEnemy (max 1 (floorNo s - 1)) False)
         \<and> hp (makeEnemy (max 1 (floorNo s - 1)) False) = maxHp (makeEnemy (max 1 (floorNo s - 1)) False)"
  using assms
  by (simp add: tick_def fight_def Let_def bossEscapes_def makeEnemy_def max_def)


theorem tick_boss_escape_witness:
  "tick 1000 \<lparr>gold = 7, lifetimeGold = 9, clickLevel = 1, floorNo = 3, killsThisFloor = 20,
       heroes = [\<lparr>heroId = 1, level = 2\<rparr>],
       enemy = Some \<lparr>maxHp = 307.2, hp = 100, isBoss = True, bossTimeLeft = Some 0.5\<rparr>,
       lastSeen = None\<rparr> 0.5
   = Some \<lparr>gold = 7, lifetimeGold = 9, clickLevel = 1, floorNo = 2, killsThisFloor = 0,
       heroes = [\<lparr>heroId = 1, level = 2\<rparr>],
       enemy = Some \<lparr>maxHp = 16, hp = 16, isBoss = False, bossTimeLeft = None\<rparr>,
       lastSeen = Some 1000\<rparr>"
proof -
  let ?e = "\<lparr>maxHp = 307.2, hp = 100, isBoss = True, bossTimeLeft = Some (0.5::real)\<rparr>"
  let ?s = "\<lparr>gold = 7, lifetimeGold = 9, clickLevel = 1, floorNo = 3, killsThisFloor = 20,
       heroes = [\<lparr>heroId = 1, level = 2\<rparr>], enemy = Some ?e, lastSeen = None\<rparr>"
  have d: "totalDps (heroes ?s) = Some 2"
    by (simp add: totalDps_def heroesById_def HEROES_def)
  have "tick 1000 ?s 0.5 =
           Some (?s\<lparr>lastSeen := Some 1000, floorNo := max 1 (floorNo ?s - 1), killsThisFloor := 0,
                   enemy := Some (makeEnemy (max 1 (floorNo ?s - 1)) False)\<rparr>)"
    using tick_boss_escape[of ?s ?e "1/2" 2 "1/2" 1000] d by (simp add: damaged_def)
  then show ?thesis by (simp add: makeEnemy_def)
qed


subsection \<open>A tick of no duration\<close>

text \<open>
  A tick with \<open>dt = 0\<close> on a dead regular encounter resolves the kill: gold, the kill counter
  and the encounter all change.
\<close>

theorem tick_zero_dead_counterexample:
  "tick 5 \<lparr>gold = 0, lifetimeGold = 0, clickLevel = 1, floorNo = 1, killsThisFloor = 0,
       heroes = [], enemy = Some \<lparr>maxHp = 10, hp = 0, isBoss = False, bossTimeLeft = None\<rparr>,
       lastSeen = None\<rparr> 0
   = Some \<lparr>gold = 0.51, lifetimeGold = 0.51, clickLevel = 1, floorNo = 1, killsThisFloor = 1,
       heroes = [], enemy = Some \<lparr>maxHp = 10, hp = 10, isBoss = False, bossTimeLeft = None\<rparr>,
       lastSeen = Some 5\<rparr>"
  by (simp add: tick_def fight_def totalDps_def damaged_def Let_def enemyKilled_def goldRewardFor_def makeEnemy_def)

lemma enemyKilled_hp: "hp (the (enemy (enemyKilled s e))) > 0"
  by (simp add: enemyKilled_def Let_def makeEnemy_def)

lemma enemyKilled_enemy_ne: "hp e' \<le> 0 \<Longrightarrow> enemy (enemyKilled s e) \<noteq> Some e'"
  using enemyKilled_hp[of s e] by auto

lemma bossEscapes_enemy_ne: "isBoss e' \<Longrightarrow> enemy (bossEscapes s) \<noteq> Some e'"
  by (auto simp: bossEscapes_def Let_def makeEnemy_def)

lemma SaveData_enemy_neq: "enemy a \<noteq> enemy b \<Longrightarrow> a \<noteq> b" by auto

text \<open>
  Claim C6, amended.  \<open>tick(state, 0)\<close> returns the input state with only \<open>lastSeen\<close>
  replaced exactly when the state has no encounter, or all hero ids are in the table, the
  encounter's \<open>hp\<close> is not 0 and, if it is a boss with a timer, the timer is not negative and
  is 0 only with negative \<open>hp\<close>.  (On a dead encounter the kill is resolved, on a boss whose
  timer is already 0 the escape.)
\<close>

theorem tick_zero_unchanged_iff:
  "tick now s 0 = Some (s\<lparr>lastSeen := Some now\<rparr>) \<longleftrightarrow>
     (case enemy s of
        None \<Rightarrow> True
      | Some e \<Rightarrow>
          totalDps (heroes s) \<noteq> None \<and> hp e \<noteq> 0 \<and>
          (case bossTimeLeft e of
             None \<Rightarrow> True
           | Some t \<Rightarrow> isBoss e \<longrightarrow> 0 \<le> t \<and> (t = 0 \<longrightarrow> hp e < 0)))"
proof (cases "enemy s")
  case None
  then show ?thesis by (simp add: tick_def fight_def)
next
  case (Some e)
  show ?thesis
  proof (cases "totalDps (heroes s)")
    case None
    with Some show ?thesis by (simp add: tick_def fight_def)
  next
    case (Some dps)
    have d0: "damaged dps 0 e = e" by (cases e) (simp add: damaged_def max_def)
    have upd: "s\<lparr>lastSeen := Some now, enemy := Some e\<rparr> = s\<lparr>lastSeen := Some now\<rparr>"
      using \<open>enemy s = Some e\<close> by (cases s) simp
    show ?thesis
    proof (cases "hp e = 0")
      case True
      have "enemyKilled (s\<lparr>lastSeen := Some now, enemy := Some x\<rparr>) y \<noteq> s\<lparr>lastSeen := Some now\<rparr>" for x y
        by (rule SaveData_enemy_neq) (use True \<open>enemy s = Some e\<close> enemyKilled_enemy_ne[of e] in simp)
      with True Some \<open>enemy s = Some e\<close> show ?thesis
        by (simp add: tick_def fight_def Let_def d0 split: option.splits)
    next
      case False
      show ?thesis
      proof (cases "isBoss e")
        case nb: False
        with False Some \<open>enemy s = Some e\<close> show ?thesis
          by (simp add: tick_def fight_def Let_def d0 upd split: option.splits)
      next
        case b: True
        show ?thesis
        proof (cases "bossTimeLeft e")
          case None
          with b False Some \<open>enemy s = Some e\<close> show ?thesis
            by (simp add: tick_def fight_def Let_def d0 upd)
        next
          case (Some t)
          have esc: "bossEscapes (s\<lparr>lastSeen := Some now, enemy := Some x\<rparr>) \<noteq> s\<lparr>lastSeen := Some now\<rparr>" for x
            by (rule SaveData_enemy_neq) (use b \<open>enemy s = Some e\<close> bossEscapes_enemy_ne[of e] in simp)
          have same: "s\<lparr>lastSeen := Some now, enemy := Some (e\<lparr>bossTimeLeft := Some u\<rparr>)\<rparr> = s\<lparr>lastSeen := Some now\<rparr>
                \<longleftrightarrow> u = t" for u
            using \<open>enemy s = Some e\<close> Some by (cases s, cases e) auto
          from Some b False \<open>totalDps (heroes s) = Some dps\<close> \<open>enemy s = Some e\<close> show ?thesis
            by (auto simp: tick_def fight_def Let_def d0 esc same max_def)
        qed
      qed
    qed
  qed
qed


theorem tick_zero_unchanged_iff_witness:
  "tick 5 \<lparr>gold = 3, lifetimeGold = 4, clickLevel = 2, floorNo = 1, killsThisFloor = 20,
       heroes = [\<lparr>heroId = 1, level = 2\<rparr>],
       enemy = Some \<lparr>maxHp = 120, hp = 50, isBoss = True, bossTimeLeft = Some 12\<rparr>,
       lastSeen = None\<rparr> 0
   = Some \<lparr>gold = 3, lifetimeGold = 4, clickLevel = 2, floorNo = 1, killsThisFloor = 20,
       heroes = [\<lparr>heroId = 1, level = 2\<rparr>],
       enemy = Some \<lparr>maxHp = 120, hp = 50, isBoss = True, bossTimeLeft = Some 12\<rparr>,
       lastSeen = Some 5\<rparr>"
  using tick_zero_unchanged_iff[of 5 "\<lparr>gold = 3, lifetimeGold = 4, clickLevel = 2, floorNo = 1,
       killsThisFloor = 20, heroes = [\<lparr>heroId = 1, level = 2\<rparr>],
       enemy = Some \<lparr>maxHp = 120, hp = 50, isBoss = True, bossTimeLeft = Some 12\<rparr>,
       lastSeen = None\<rparr>"]
  by (simp add: totalDps_def heroesById_def HEROES_def)

subsection \<open>The reward of a kill\<close>

lemma goldRewardFor_damaged [simp]: "goldRewardFor (damaged dps dt e) fl = goldRewardFor e fl"
  by (simp add: goldRewardFor_def)

lemma goldRewardFor_timer [simp]: "goldRewardFor (e\<lparr>bossTimeLeft := x\<rparr>) fl = goldRewardFor e fl"
  by (simp add: goldRewardFor_def)



lemma onKill_gold:
  "gold (st (onKill en p)) = gold (st p) + goldRewardFor en (floorNo (st p))"
  "lifetimeGold (st (onKill en p)) = lifetimeGold (st p) + goldRewardFor en (floorNo (st p))"
  "goldEarned (onKill en p) = goldEarned p + goldRewardFor en (floorNo (st p))"
  by (simp_all add: onKill_def Let_def)




text \<open>The worked example: damage per second 5 and \<open>dt = 3\<close> on a fresh floor-1 enemy.\<close>

theorem tick_example:
  "tick 0 \<lparr>gold = 0, lifetimeGold = 0, clickLevel = 1, floorNo = 1, killsThisFloor = 0,
         heroes = [\<lparr>heroId = 2, level = 1\<rparr>],
         enemy = Some (makeEnemy 1 False), lastSeen = None\<rparr> 3
   = Some \<lparr>gold = 0.51, lifetimeGold = 0.51, clickLevel = 1, floorNo = 1, killsThisFloor = 1,
         heroes = [\<lparr>heroId = 2, level = 1\<rparr>],
         enemy = Some \<lparr>maxHp = 10, hp = 10, isBoss = False, bossTimeLeft = None\<rparr>, lastSeen = Some 0\<rparr>"
  by (simp add: tick_def fight_def totalDps_def heroesById_def HEROES_def damaged_def Let_def
      enemyKilled_def goldRewardFor_def makeEnemy_def)


section \<open>Purchases\<close>







section \<open>What a tick does to the caller's encounter\<close>

text \<open>
  \<open>tickRef\<close> returns what \<open>tick\<close> returns, once the references are followed in the
  store it leaves behind.
\<close>

lemma deref_sel [simp]:
  "gold (deref store s) = gold s" "lifetimeGold (deref store s) = lifetimeGold s"
  "clickLevel (deref store s) = clickLevel s" "floorNo (deref store s) = floorNo s"
  "killsThisFloor (deref store s) = killsThisFloor s" "heroes (deref store s) = heroes s"
  "lastSeen (deref store s) = lastSeen s"
  "enemy (deref store s) = map_option (\<lambda>a. store ! a) (enemy s)"
  by (simp_all add: deref_def)

lemma deref_bossEscapesRef:
  "deref (fst (bossEscapesRef store s)) (snd (bossEscapesRef store s)) = bossEscapes (deref store s)"
  by (simp add: bossEscapesRef_def bossEscapes_def Let_def deref_def)

lemma deref_enemyKilledRef:
  "deref (fst (enemyKilledRef store s e)) (snd (enemyKilledRef store s e)) = enemyKilled (deref store s) e"
  by (simp add: enemyKilledRef_def enemyKilled_def Let_def deref_def)

lemma deref_update:
  "enemy s = Some a \<Longrightarrow> a < length store \<Longrightarrow>
     deref (store[a := e]) s = (deref store s)\<lparr>enemy := Some e\<rparr>"
  by (simp add: deref_def)

lemma bossEscapes_enemy_irrelevant:
  "bossEscapes (s\<lparr>enemy := x\<rparr>) = bossEscapes s"
  "bossEscapes (s\<lparr>enemy := x, lastSeen := y\<rparr>) = bossEscapes (s\<lparr>lastSeen := y\<rparr>)"
  by (simp_all add: bossEscapes_def Let_def)

lemma enemyKilled_enemy_irrelevant:
  "enemyKilled (s\<lparr>enemy := x\<rparr>) e = enemyKilled s e"
  "enemyKilled (s\<lparr>enemy := x, lastSeen := y\<rparr>) e = enemyKilled (s\<lparr>lastSeen := y\<rparr>) e"
  by (simp_all add: enemyKilled_def Let_def)

lemma deref_lastSeen: "deref store (s\<lparr>lastSeen := x\<rparr>) = (deref store s)\<lparr>lastSeen := x\<rparr>"
  by (simp add: deref_def)

lemma fightRef_refines_fight:
  assumes "enemy s = Some a" and "a < length store"
  shows "deref (fst (fightRef dps dt store s a)) (snd (fightRef dps dt store s a))
           = fight dps dt (deref store s) (store ! a)"
proof -
  note du = deref_update[OF assms(1)]
  from assms show ?thesis
    by (cases "isBoss (store ! a)"; cases "bossTimeLeft (store ! a)")
       (simp_all add: fightRef_def fight_def Let_def du deref_bossEscapesRef deref_enemyKilledRef
          bossEscapes_enemy_irrelevant enemyKilled_enemy_irrelevant)
qed

lemma tickRef_refines_tick:
  assumes "\<forall>a. enemy s = Some a \<longrightarrow> a < length store"
  shows "map_option (\<lambda>r. deref (fst r) (snd r)) (tickRef now store s dt) = tick now (deref store s) dt"
proof (cases "enemy s")
  case None
  then show ?thesis by (simp add: tickRef_def tick_def deref_def)
next
  case (Some a)
  with assms have a: "a < length store" by simp
  have e: "enemy (s\<lparr>lastSeen := Some now\<rparr>) = Some a" using Some by simp
  from Some a show ?thesis
    by (cases "totalDps (heroes s)")
       (simp_all add: tickRef_def tick_def fightRef_refines_fight[OF e a] deref_lastSeen)
qed

text \<open>
  Claim C5.  \<open>tick\<close> copies the save but not the encounter: the damage is written into the
  object that the caller's state refers to.  After a tick of one second at one damage per
  second, the caller's own state, which held an encounter with 10 hit points, holds one with
  9, and the returned state refers to the very same object.
\<close>

theorem tickRef_writes_shared_enemy:
  "map_option (\<lambda>(store', s'). (enemy (deref store'
        \<lparr>gold = 0, lifetimeGold = 0, clickLevel = 1, floorNo = 1, killsThisFloor = 0,
         heroes = [\<lparr>heroId = 1, level = 1\<rparr>], enemy = Some 0, lastSeen = None\<rparr>), enemy s'))
     (tickRef 7 [\<lparr>maxHp = 10, hp = 10, isBoss = False, bossTimeLeft = None\<rparr>]
        \<lparr>gold = 0, lifetimeGold = 0, clickLevel = 1, floorNo = 1, killsThisFloor = 0,
         heroes = [\<lparr>heroId = 1, level = 1\<rparr>], enemy = Some 0, lastSeen = None\<rparr> 1)
   = Some (Some \<lparr>maxHp = 10, hp = 9, isBoss = False, bossTimeLeft = None\<rparr>, Some 0)
   \<and> enemy (deref [\<lparr>maxHp = 10, hp = 10, isBoss = False, bossTimeLeft = None\<rparr>]
        \<lparr>gold = 0, lifetimeGold = 0, clickLevel = 1, floorNo = 1, killsThisFloor = 0,
         heroes = [\<lparr>heroId = 1, level = 1\<rparr>], enemy = Some 0, lastSeen = None\<rparr>)
     = Some \<lparr>maxHp = 10, hp = 10, isBoss = False, bossTimeLeft = None\<rparr>"
  by (simp add: tickRef_def fightRef_def totalDps_def heroesById_def HEROES_def damaged_def Let_def
      deref_def)


section \<open>The report of the offline resolve\<close>

lemma replay_append: "replay (a @ b) p = replay b (replay a p)"
  by (induction a p rule: replay.induct) simp_all

lemma funpow_onKill_replay: "(onKill en ^^ k) p = replay (replicate k (Kill en)) p"
proof (induction k arbitrary: p)
  case 0 show ?case by simp
next
  case (Suc k)
  have "(onKill en ^^ Suc k) p = (onKill en ^^ k) (onKill en p)" by (simp add: funpow_swap1)
  with Suc show ?case by simp
qed

lemma iteration_events:
  "\<exists>evs. (case iteration dps en p of Continue p' \<Rightarrow> p' | Break p' \<Rightarrow> p') = replay evs p"
proof -
  have k: "onKill en (p\<lparr>timeLeft := timeLeft p - x\<rparr>) = replay [Elapse x, Kill en] p" for x
    by simp
  have b: "(onKill en ^^ c) (p\<lparr>timeLeft := timeLeft p - x\<rparr>) = replay (Elapse x # replicate c (Kill en)) p" for x c
    by (simp add: funpow_onKill_replay)
  have d: "partialDamage e' p = replay [Damage e'] p" for e' by simp
  have e: "bossTimesOut x p = replay [Escape x] p" for x by simp
  show ?thesis
    unfolding iteration_def Let_def k b d e
    by (simp only: flow.case if_distrib[of "\<lambda>f. case_flow (\<lambda>p'. p') (\<lambda>p'. p') f"] split: if_splits) blast
qed

lemma offlineLoop_events: "\<exists>evs. offlineLoop n dps p = replay evs p"
proof (induction n arbitrary: p)
  case 0
  have "offlineLoop 0 dps p = replay [] p" by simp
  then show ?case by blast
next
  case (Suc n)
  have nil: "p = replay [] p" by simp
  show ?case
  proof (cases "timeLeft p > 0")
    case False
    then have "offlineLoop (Suc n) dps p = replay [] p" by simp
    then show ?thesis by blast
  next
    case True
    show ?thesis
    proof (cases "enemy (st p)")
      case None
      with True have "offlineLoop (Suc n) dps p = replay [] p" by simp
      then show ?thesis by blast
    next
      case (Some en)
      from iteration_events[of dps en p] obtain evs where
        evs: "(case iteration dps en p of Continue p' \<Rightarrow> p' | Break p' \<Rightarrow> p') = replay evs p" by blast
      show ?thesis
      proof (cases "iteration dps en p")
        case (Break p')
        with evs True Some have "offlineLoop (Suc n) dps p = replay evs p" by simp
        then show ?thesis by blast
      next
        case (Continue p')
        from Suc.IH[of p'] obtain evs' where "offlineLoop n dps p' = replay evs' p'" by blast
        with Continue evs True Some have "offlineLoop (Suc n) dps p = replay (evs @ evs') p"
          by (simp add: replay_append)
        then show ?thesis by blast
      qed
    qed
  qed
qed

lemma onKill_counts:
  "kills (onKill en p) = kills p + 1"
  "floorsCleared (onKill en p) = floorsCleared p + (if isBoss en then 1 else 0)"
  "floorNo (st (onKill en p)) = floorNo (st p) + (if isBoss en then 1 else 0)"
  by (simp_all add: onKill_def Let_def)

lemma bossTimesOut_sel:
  "gold (st (bossTimesOut x p)) = gold (st p)" "lifetimeGold (st (bossTimesOut x p)) = lifetimeGold (st p)"
  "goldEarned (bossTimesOut x p) = goldEarned p" "kills (bossTimesOut x p) = kills p"
  "floorsCleared (bossTimesOut x p) = floorsCleared p"
  "floorNo (st (bossTimesOut x p)) = max 1 (floorNo (st p) - 1)"
  by (simp_all add: bossTimesOut_def Let_def)

lemma partialDamage_sel:
  "gold (st (partialDamage e p)) = gold (st p)" "lifetimeGold (st (partialDamage e p)) = lifetimeGold (st p)"
  "goldEarned (partialDamage e p) = goldEarned p" "kills (partialDamage e p) = kills p"
  "floorsCleared (partialDamage e p) = floorsCleared p"
  "floorNo (st (partialDamage e p)) = floorNo (st p)"
  by (simp_all add: partialDamage_def)

lemma replay_gold:
  "gold (st (replay evs p)) - goldEarned (replay evs p) = gold (st p) - goldEarned p"
  by (induction evs p rule: replay.induct)
     (simp_all add: onKill_gold bossTimesOut_sel partialDamage_sel)

lemma replay_lifetimeGold:
  "lifetimeGold (st (replay evs p)) - goldEarned (replay evs p) = lifetimeGold (st p) - goldEarned p"
  by (induction evs p rule: replay.induct)
     (simp_all add: onKill_gold bossTimesOut_sel partialDamage_sel)

lemma replay_kills: "kills (replay evs p) = kills p + int (length (filter isKill evs))"
  by (induction evs p rule: replay.induct)
     (simp_all add: onKill_counts bossTimesOut_sel partialDamage_sel)

lemma replay_floorsCleared:
  "floorsCleared (replay evs p) = floorsCleared p + int (length (filter isBossKill evs))"
  by (induction evs p rule: replay.induct)
     (simp_all add: onKill_counts bossTimesOut_sel partialDamage_sel)

lemma replay_floorNo:
  "max 1 (floorNo (st (replay evs p))) \<le> max 1 (floorNo (st p)) + int (length (filter isBossKill evs))"
proof (induction evs p rule: replay.induct)
  case (1 p)
  show ?case by simp
next
  case (2 en evs p)
  have a: "max 1 (floorNo (st (onKill en p))) \<le> max 1 (floorNo (st p)) + (if isBoss en then 1 else 0)"
    by (simp add: onKill_counts max_def)
  have l: "int (length (filter isBossKill (Kill en # evs)))
             = (if isBoss en then 1 else 0) + int (length (filter isBossKill evs))"
    by simp
  have g: "replay (Kill en # evs) p = replay evs (onKill en p)" by simp
  from a "2.IH" show ?case unfolding g l by linarith
next
  case (3 spend evs p)
  have a: "max 1 (floorNo (st (bossTimesOut spend p))) \<le> max 1 (floorNo (st p))"
    by (simp add: bossTimesOut_sel)
  have l: "int (length (filter isBossKill (Escape spend # evs))) = int (length (filter isBossKill evs))"
    by simp
  have g: "replay (Escape spend # evs) p = replay evs (bossTimesOut spend p)" by simp
  from a "3.IH" show ?case unfolding g l by linarith
next
  case (4 en evs p)
  then show ?case by (simp add: partialDamage_sel del: max.bounded_iff)
next
  case (5 x evs p)
  then show ?case by (simp del: max.bounded_iff)
qed

lemma offlineLoop_numeral:
  "offlineLoop (numeral k) dps p =
     (if timeLeft p > 0 then
        (case enemy (st p) of
           None \<Rightarrow> p
         | Some en \<Rightarrow>
             (case iteration dps en p of
                Continue p' \<Rightarrow> offlineLoop (pred_numeral k) dps p'
              | Break p' \<Rightarrow> p'))
      else p)"
  by (simp add: numeral_eq_Suc)

lemma funpow_numeral_unfold: "(f ^^ numeral k) x = (f ^^ pred_numeral k) (f x)"
  by (simp add: numeral_eq_Suc funpow_swap1)

lemma offlineLoop_escape_example:
  "offlineLoop 200000 5
     \<lparr>st = \<lparr>gold = 0, lifetimeGold = 0, clickLevel = 1, floorNo = 1, killsThisFloor = 20,
             heroes = [\<lparr>heroId = 2, level = 1\<rparr>],
             enemy = Some \<lparr>maxHp = 120, hp = 120, isBoss = True, bossTimeLeft = Some 30\<rparr>,
             lastSeen = None\<rparr>,
      timeLeft = 118, kills = 0, goldEarned = 0, floorsCleared = 0\<rparr>
   = \<lparr>st = \<lparr>gold = 28.88, lifetimeGold = 28.88, clickLevel = 1, floorNo = 1, killsThisFloor = 0,
            heroes = [\<lparr>heroId = 2, level = 1\<rparr>],
            enemy = Some \<lparr>maxHp = 10, hp = 10, isBoss = False, bossTimeLeft = None\<rparr>,
            lastSeen = None\<rparr>,
      timeLeft = 0, kills = 21, goldEarned = 28.88, floorsCleared = 1\<rparr>"
  apply (subst offlineLoop_numeral)
  apply (simp add: iteration_def onKill_def goldRewardFor_def makeEnemy_def Let_def)
  apply (subst offlineLoop_numeral)
  apply (simp add: iteration_def Let_def)
  apply (simp add: funpow_numeral_unfold onKill_def goldRewardFor_def makeEnemy_def Let_def)
  apply (subst offlineLoop_numeral)
  apply (simp add: iteration_def Let_def bossTimesOut_def makeEnemy_def)
  apply (subst offlineLoop_numeral)
  apply simp
  done

lemma simulateOffline_escape_example:
  "simulateOffline 0
     \<lparr>gold = 0, lifetimeGold = 0, clickLevel = 1, floorNo = 1, killsThisFloor = 20,
      heroes = [\<lparr>heroId = 2, level = 1\<rparr>],
      enemy = Some \<lparr>maxHp = 120, hp = 120, isBoss = True, bossTimeLeft = Some 30\<rparr>,
      lastSeen = None\<rparr> 118
   = Some (\<lparr>gold = 28.88, lifetimeGold = 28.88, clickLevel = 1, floorNo = 1, killsThisFloor = 0,
            heroes = [\<lparr>heroId = 2, level = 1\<rparr>],
            enemy = Some \<lparr>maxHp = 10, hp = 10, isBoss = False, bossTimeLeft = None\<rparr>,
            lastSeen = Some 0\<rparr>,
           \<lparr>rep_seconds = 118, rep_kills = 21, rep_gold = 28.88, rep_floors = 1\<rparr>)"
  by (simp add: simulateOffline_def totalDps_def heroesById_def HEROES_def offlineLoop_escape_example)


lemma simulateOffline_replay:
  assumes "simulateOffline now s seconds = Some (s', r)"
  shows "\<exists>evs. s' = (st (replay evs
              \<lparr>st = (case enemy s of
                        None \<Rightarrow> s\<lparr>enemy := Some (makeEnemy (floorNo s) False)\<rparr>
                      | Some _ \<Rightarrow> s),
               timeLeft = seconds, kills = 0, goldEarned = 0, floorsCleared = 0\<rparr>))\<lparr>lastSeen := Some now\<rparr> \<and>
         r = \<lparr>rep_seconds = seconds,
              rep_kills = kills (replay evs
              \<lparr>st = (case enemy s of
                        None \<Rightarrow> s\<lparr>enemy := Some (makeEnemy (floorNo s) False)\<rparr>
                      | Some _ \<Rightarrow> s),
               timeLeft = seconds, kills = 0, goldEarned = 0, floorsCleared = 0\<rparr>),
              rep_gold = goldEarned (replay evs
              \<lparr>st = (case enemy s of
                        None \<Rightarrow> s\<lparr>enemy := Some (makeEnemy (floorNo s) False)\<rparr>
                      | Some _ \<Rightarrow> s),
               timeLeft = seconds, kills = 0, goldEarned = 0, floorsCleared = 0\<rparr>),
              rep_floors = floorsCleared (replay evs
              \<lparr>st = (case enemy s of
                        None \<Rightarrow> s\<lparr>enemy := Some (makeEnemy (floorNo s) False)\<rparr>
                      | Some _ \<Rightarrow> s),
               timeLeft = seconds, kills = 0, goldEarned = 0, floorsCleared = 0\<rparr>)\<rparr>"
proof -
  define s0 where "s0 = (case enemy s of
                        None \<Rightarrow> s\<lparr>enemy := Some (makeEnemy (floorNo s) False)\<rparr>
                      | Some _ \<Rightarrow> s)"
  define p0 where "p0 = \<lparr>st = s0, timeLeft = seconds, kills = 0, goldEarned = 0, floorsCleared = 0\<rparr>"
  from assms obtain dps where dps: "totalDps (heroes s0) = Some dps"
    unfolding simulateOffline_def s0_def[symmetric] Let_def by (auto split: option.splits)
  show ?thesis
    unfolding s0_def[symmetric] p0_def[symmetric]
  proof (cases "dps \<le> 0 \<or> seconds \<le> 0")
    case True
    with assms dps have "s' = s0\<lparr>lastSeen := Some now\<rparr>"
      "r = \<lparr>rep_seconds = seconds, rep_kills = 0, rep_gold = 0, rep_floors = 0\<rparr>"
      unfolding simulateOffline_def s0_def[symmetric] Let_def by auto
    then have "s' = (st (replay [] p0))\<lparr>lastSeen := Some now\<rparr> \<and>
         r = \<lparr>rep_seconds = seconds, rep_kills = kills (replay [] p0),
              rep_gold = goldEarned (replay [] p0), rep_floors = floorsCleared (replay [] p0)\<rparr>"
      by (simp add: p0_def)
    then show "\<exists>evs. s' = (st (replay evs p0))\<lparr>lastSeen := Some now\<rparr> \<and>
         r = \<lparr>rep_seconds = seconds, rep_kills = kills (replay evs p0),
              rep_gold = goldEarned (replay evs p0), rep_floors = floorsCleared (replay evs p0)\<rparr>"
      by blast
  next
    case False
    from offlineLoop_events[of 200000 dps p0] obtain evs where
      evs: "offlineLoop 200000 dps p0 = replay evs p0" by blast
    from False assms dps have "s' = (st (offlineLoop 200000 dps p0))\<lparr>lastSeen := Some now\<rparr>"
      "r = \<lparr>rep_seconds = seconds, rep_kills = kills (offlineLoop 200000 dps p0),
              rep_gold = goldEarned (offlineLoop 200000 dps p0),
              rep_floors = floorsCleared (offlineLoop 200000 dps p0)\<rparr>"
      unfolding simulateOffline_def s0_def[symmetric] Let_def p0_def by auto
    then have "s' = (st (replay evs p0))\<lparr>lastSeen := Some now\<rparr> \<and>
         r = \<lparr>rep_seconds = seconds, rep_kills = kills (replay evs p0),
              rep_gold = goldEarned (replay evs p0), rep_floors = floorsCleared (replay evs p0)\<rparr>"
      unfolding evs by simp
    then show "\<exists>evs. s' = (st (replay evs p0))\<lparr>lastSeen := Some now\<rparr> \<and>
         r = \<lparr>rep_seconds = seconds, rep_kills = kills (replay evs p0),
              rep_gold = goldEarned (replay evs p0), rep_floors = floorsCleared (replay evs p0)\<rparr>"
      by blast
  qed
qed

text \<open>
  Claim C10.  \<open>simulateOffline\<close> returns whenever all hero ids are in the table.
  Whenever it returns, the gold of the report is exactly what
  was added to \<open>gold\<close> and to \<open>lifetimeGold\<close>; the resolve is a sequence of kills,
  escapes, damage and elapsing time in which the report's \<open>kills\<close> is the number of kills
  and its \<open>floors\<close> the number of boss kills, escapes not being subtracted; so the floor
  rises by at most \<open>floors\<close>, and there is a resolve in which it rises by less.
\<close>

theorem offline_report_consistent:
  "(simulateOffline now s seconds = Some (s', r) \<longrightarrow>
      gold s' = gold s + rep_gold r \<and>
      lifetimeGold s' = lifetimeGold s + rep_gold r \<and>
      rep_seconds r = seconds \<and>
      (\<exists>evs. s' = (st (replay evs
                 \<lparr>st = (case enemy s of
                           None \<Rightarrow> s\<lparr>enemy := Some (makeEnemy (floorNo s) False)\<rparr>
                         | Some _ \<Rightarrow> s),
                  timeLeft = seconds, kills = 0, goldEarned = 0, floorsCleared = 0\<rparr>))
                 \<lparr>lastSeen := Some now\<rparr> \<and>
             rep_kills r = int (length (filter isKill evs)) \<and>
             rep_floors r = int (length (filter isBossKill evs))) \<and>
      max 1 (floorNo s') \<le> max 1 (floorNo s) + rep_floors r)
   \<and> (totalDps (heroes s) \<noteq> None \<longrightarrow> simulateOffline now s seconds \<noteq> None)
   \<and> (\<exists>s0 s1 r1. simulateOffline 0 s0 118 = Some (s1, r1) \<and> floorNo s1 - floorNo s0 < rep_floors r1)"
proof -
  have ret: "totalDps (heroes s) \<noteq> None \<longrightarrow> simulateOffline now s seconds \<noteq> None"
    by (auto simp: simulateOffline_def Let_def split: option.splits)
  have ex: "\<exists>s0 s1 r1. simulateOffline 0 s0 118 = Some (s1, r1) \<and> floorNo s1 - floorNo s0 < rep_floors r1"
    by (intro exI, rule conjI, rule simulateOffline_escape_example) simp
  have main: "gold s' = gold s + rep_gold r \<and>
      lifetimeGold s' = lifetimeGold s + rep_gold r \<and>
      rep_seconds r = seconds \<and>
      (\<exists>evs. s' = (st (replay evs
                 \<lparr>st = (case enemy s of
                           None \<Rightarrow> s\<lparr>enemy := Some (makeEnemy (floorNo s) False)\<rparr>
                         | Some _ \<Rightarrow> s),
                  timeLeft = seconds, kills = 0, goldEarned = 0, floorsCleared = 0\<rparr>))
                 \<lparr>lastSeen := Some now\<rparr> \<and>
             rep_kills r = int (length (filter isKill evs)) \<and>
             rep_floors r = int (length (filter isBossKill evs))) \<and>
      max 1 (floorNo s') \<le> max 1 (floorNo s) + rep_floors r"
    if run: "simulateOffline now s seconds = Some (s', r)"
  proof -
    define s0 where "s0 = (case enemy s of
                        None \<Rightarrow> s\<lparr>enemy := Some (makeEnemy (floorNo s) False)\<rparr>
                      | Some _ \<Rightarrow> s)"
    define p0 where "p0 = \<lparr>st = s0, timeLeft = seconds, kills = 0, goldEarned = 0, floorsCleared = 0\<rparr>"
    have s0: "gold s0 = gold s" "lifetimeGold s0 = lifetimeGold s" "floorNo s0 = floorNo s"
      by (simp_all add: s0_def split: option.splits)
    from simulateOffline_replay[OF run] obtain evs where
      s': "s' = (st (replay evs p0))\<lparr>lastSeen := Some now\<rparr>" and
      r: "r = \<lparr>rep_seconds = seconds, rep_kills = kills (replay evs p0),
              rep_gold = goldEarned (replay evs p0), rep_floors = floorsCleared (replay evs p0)\<rparr>"
      unfolding s0_def[symmetric] p0_def[symmetric] by blast
    have g: "gold s' = gold s + rep_gold r"
      using replay_gold[of evs p0] by (simp add: s' r p0_def s0)
    have l: "lifetimeGold s' = lifetimeGold s + rep_gold r"
      using replay_lifetimeGold[of evs p0] by (simp add: s' r p0_def s0)
    have k: "rep_kills r = int (length (filter isKill evs))"
      using replay_kills[of evs p0] by (simp add: r p0_def)
    have f: "rep_floors r = int (length (filter isBossKill evs))"
      using replay_floorsCleared[of evs p0] by (simp add: r p0_def)
    have m: "max 1 (floorNo s') \<le> max 1 (floorNo s) + rep_floors r"
      using replay_floorNo[of evs p0] unfolding f by (simp add: s' p0_def s0 del: max.bounded_iff)
    have sec: "rep_seconds r = seconds" by (simp add: r)
    from s' k f have "\<exists>evs. s' = (st (replay evs p0))\<lparr>lastSeen := Some now\<rparr> \<and>
             rep_kills r = int (length (filter isKill evs)) \<and>
             rep_floors r = int (length (filter isBossKill evs))" by blast
    with g l sec m show ?thesis unfolding p0_def s0_def by blast
  qed
  from main ret ex show ?thesis by blast
qed

theorem offline_report_consistent_witness:
  "simulateOffline 0
     \<lparr>gold = 0, lifetimeGold = 0, clickLevel = 1, floorNo = 1, killsThisFloor = 20,
      heroes = [\<lparr>heroId = 2, level = 1\<rparr>],
      enemy = Some \<lparr>maxHp = 120, hp = 120, isBoss = True, bossTimeLeft = Some 30\<rparr>,
      lastSeen = None\<rparr> 118
   = Some (\<lparr>gold = 28.88, lifetimeGold = 28.88, clickLevel = 1, floorNo = 1, killsThisFloor = 0,
            heroes = [\<lparr>heroId = 2, level = 1\<rparr>],
            enemy = Some \<lparr>maxHp = 10, hp = 10, isBoss = False, bossTimeLeft = None\<rparr>,
            lastSeen = Some 0\<rparr>,
           \<lparr>rep_seconds = 118, rep_kills = 21, rep_gold = 28.88, rep_floors = 1\<rparr>)
   \<and> (28.88::real) = 0 + 28.88 \<and> max 1 (1::int) \<le> max 1 1 + 1"
  using offline_report_consistent[of 0
     "\<lparr>gold = 0, lifetimeGold = 0, clickLevel = 1, floorNo = 1, killsThisFloor = 20,
      heroes = [\<lparr>heroId = 2, level = 1\<rparr>],
      enemy = Some \<lparr>maxHp = 120, hp = 120, isBoss = True, bossTimeLeft = Some 30\<rparr>,
      lastSeen = None\<rparr>" 118
     "\<lparr>gold = 28.88, lifetimeGold = 28.88, clickLevel = 1, floorNo = 1, killsThisFloor = 0,
            heroes = [\<lparr>heroId = 2, level = 1\<rparr>],
            enemy = Some \<lparr>maxHp = 10, hp = 10, isBoss = False, bossTimeLeft = None\<rparr>,
            lastSeen = Some 0\<rparr>"
     "\<lparr>rep_seconds = 118, rep_kills = 21, rep_gold = 28.88, rep_floors = 1\<rparr>"]
    simulateOffline_escape_example
  by simp



section \<open>Invariants of the offline loop\<close>

lemma funpow_preserves:
  assumes "P p" and "\<And>q. P q \<Longrightarrow> P (f q)"
  shows "P ((f ^^ k) p)"
  using assms by (induction k) simp_all

lemma iteration_preserves:
  assumes init: "P p" and en: "enemy (st p) = Some en"
    and spend: "\<And>q x. P q \<Longrightarrow> P (q\<lparr>timeLeft := x\<rparr>)"
    and kill: "\<And>q e. P q \<Longrightarrow> P (onKill e q)"
    and part: "\<And>q e e'. P q \<Longrightarrow> enemy (st q) = Some e \<Longrightarrow> isBoss e' = isBoss e \<Longrightarrow>
                 maxHp e' = maxHp e \<Longrightarrow> P (partialDamage e' q)"
    and esc: "\<And>q x. P q \<Longrightarrow> P (bossTimesOut x q)"
  shows "case iteration dps en p of Continue p' \<Rightarrow> P p' | Break p' \<Rightarrow> P p'"
proof -
  have k1: "P (onKill en (p\<lparr>timeLeft := x\<rparr>))" for x
    by (rule kill) (rule spend, rule init)
  have kn: "P ((onKill en ^^ k) (p\<lparr>timeLeft := x\<rparr>))" for x k
    by (rule funpow_preserves) (rule spend, rule init, rule kill)
  have pd: "isBoss e' = isBoss en \<Longrightarrow> maxHp e' = maxHp en \<Longrightarrow> P (partialDamage e' p)" for e'
    by (rule part[OF init en])
  have k0: "P (onKill en p)" by (rule kill[OF init])
  have kn0: "P ((onKill en ^^ k) p)" for k
    by (rule funpow_preserves) (rule init, rule kill)
  show ?thesis
    by (simp add: iteration_def Let_def k1 kn k0 kn0 pd esc[OF init])
qed

lemma offlineLoop_preserves:
  assumes init: "P p"
    and spend: "\<And>q x. P q \<Longrightarrow> P (q\<lparr>timeLeft := x\<rparr>)"
    and kill: "\<And>q e. P q \<Longrightarrow> P (onKill e q)"
    and part: "\<And>q e e'. P q \<Longrightarrow> enemy (st q) = Some e \<Longrightarrow> isBoss e' = isBoss e \<Longrightarrow>
                 maxHp e' = maxHp e \<Longrightarrow> P (partialDamage e' q)"
    and esc: "\<And>q x. P q \<Longrightarrow> P (bossTimesOut x q)"
  shows "P (offlineLoop n dps p)"
  using init
proof (induction n arbitrary: p)
  case 0
  then show ?case by simp
next
  case (Suc n)
  show ?case
  proof (cases "timeLeft p > 0")
    case False
    with Suc.prems show ?thesis by simp
  next
    case True
    show ?thesis
    proof (cases "enemy (st p)")
      case None
      with True Suc.prems show ?thesis by simp
    next
      case (Some en)
      have "case iteration dps en p of Continue p' \<Rightarrow> P p' | Break p' \<Rightarrow> P p'"
        by (rule iteration_preserves[where P = P, OF Suc.prems Some spend kill part esc])
      with True Some Suc.IH show ?thesis
        by (simp split: flow.splits)
    qed
  qed
qed

section \<open>The kill counter\<close>

lemma counterInv_enemyKilled: "counterInv (enemyKilled s e)"
  by (simp add: counterInv_def enemyKilled_def Let_def makeEnemy_def)

lemma counterInv_bossEscapes: "counterInv (bossEscapes s)"
  by (simp add: counterInv_def bossEscapes_def Let_def makeEnemy_def)

lemma counterInv_onKill: "counterInv (st (onKill e q))"
  by (simp add: counterInv_def onKill_def Let_def makeEnemy_def)

lemma counterInv_bossTimesOut: "counterInv (st (bossTimesOut x q))"
  by (simp add: counterInv_def bossTimesOut_def Let_def makeEnemy_def)

lemma counterInv_same_kind:
  "counterInv s \<Longrightarrow> enemy s = Some e \<Longrightarrow> isBoss e' = isBoss e \<Longrightarrow>
     counterInv (s\<lparr>enemy := Some e'\<rparr>)"
  by (simp add: counterInv_def)

lemma counterInv_lastSeen [simp]: "counterInv (s\<lparr>lastSeen := x\<rparr>) = counterInv s"
  by (simp add: counterInv_def split: option.splits)

lemma counterInv_tick:
  assumes "counterInv s" and "tick now s dt = Some s'"
  shows "counterInv s'"
proof (cases "enemy s")
  case None
  with assms show ?thesis by (auto simp: tick_def fight_def)
next
  case (Some e)
  have same: "isBoss e' = isBoss e \<Longrightarrow> counterInv (s\<lparr>lastSeen := Some now, enemy := Some e'\<rparr>)" for e'
    using counterInv_same_kind[of "s\<lparr>lastSeen := Some now\<rparr>" e e'] assms(1) Some by simp
  from assms(2) Some show ?thesis
    by (auto simp: tick_def fight_def Let_def counterInv_enemyKilled counterInv_bossEscapes same
        split: option.splits if_splits)
qed

lemma counterInv_offlineLoop:
  assumes "counterInv (st p)"
  shows "counterInv (st (offlineLoop n dps p))"
proof (rule offlineLoop_preserves[where P = "\<lambda>q. counterInv (st q)"])
  show "counterInv (st p)" by (rule assms)
next
  fix q :: Progress and x :: real assume "counterInv (st q)" then show "counterInv (st (q\<lparr>timeLeft := x\<rparr>))" by simp
next
  fix q :: Progress and e show "counterInv (st (onKill e q))" by (rule counterInv_onKill)
next
  fix q :: Progress and e e' :: Enemy assume "counterInv (st q)" "enemy (st q) = Some e" "isBoss e' = isBoss e"
  then show "counterInv (st (partialDamage e' q))"
    by (simp add: partialDamage_def counterInv_same_kind)
next
  fix q :: Progress and x show "counterInv (st (bossTimesOut x q))" by (rule counterInv_bossTimesOut)
qed

lemma counterInv_fill:
  "counterInv s \<Longrightarrow> enemy s = None \<Longrightarrow> counterInv (s\<lparr>enemy := Some (makeEnemy fl False)\<rparr>)"
  by (simp add: counterInv_def makeEnemy_def Let_def)

lemma counterInv_simulateOffline:
  assumes "counterInv s" and "simulateOffline now s seconds = Some (s', r)"
  shows "counterInv s'"
proof -
  define s0 where "s0 = (case enemy s of
                 None \<Rightarrow> s\<lparr>enemy := Some (makeEnemy (floorNo s) False)\<rparr>
               | Some _ \<Rightarrow> s)"
  have s0: "counterInv s0"
    using assms(1) by (auto simp: s0_def counterInv_fill split: option.splits)
  from assms(2) show ?thesis
    unfolding simulateOffline_def s0_def[symmetric] Let_def
    using s0 counterInv_offlineLoop[of _ 200000]
    by (auto split: option.splits if_splits)
qed

lemma counterInv_applyClick:
  assumes "counterInv s" shows "counterInv (applyClick dmg s)"
proof (cases "enemy s")
  case None then show ?thesis using assms by (simp add: applyClick_def)
next
  case (Some e)
  with assms show ?thesis
    by (simp add: applyClick_def Let_def counterInv_def makeEnemy_def)
qed

lemma counterInv_handleClick: "counterInv s \<Longrightarrow> counterInv (handleClick s)"
  by (simp add: handleClick_def counterInv_applyClick split: option.splits)

lemma counterInv_buyClickUpgrade: "counterInv s \<Longrightarrow> counterInv (buyClickUpgrade s qty)"
  by (simp add: buyClickUpgrade_def Let_def counterInv_def split: option.splits)

lemma counterInv_buyHeroLevels:
  "counterInv s \<Longrightarrow> buyHeroLevels s i qty = Some s' \<Longrightarrow> counterInv s'"
  by (auto simp: buyHeroLevels_def Let_def counterInv_def split: option.splits if_splits)

lemma counterInv_initialSave: "counterInv (initialSave now)"
  by (simp add: counterInv_def initialSave_def)

text \<open>One tick or one click on a boss leaves the boss in place with the counter at the cap,
  or resolves it; a boss appears only by the kill that takes the counter from 19 to 20.\<close>

lemma tick_boss_pinned:
  assumes "counterInv s" and "enemy s = Some e" and "isBoss e" and "tick now s dt = Some s'"
  shows "(killsThisFloor s' = 20 \<and> floorNo s' = floorNo s \<and>
          map_option (\<lambda>e'. e'\<lparr>hp := hp e, bossTimeLeft := bossTimeLeft e\<rparr>) (enemy s') = Some e)
       \<or> (killsThisFloor s' = 0 \<and> enemy s' = Some (makeEnemy (floorNo s') False) \<and>
          (floorNo s' = floorNo s + 1 \<or> floorNo s' = max 1 (floorNo s - 1)))"
proof -
  from assms(1,2,3) have k: "killsThisFloor s = 20" by (simp add: counterInv_def)
  have d: "(damaged dps dt e)\<lparr>hp := hp e\<rparr> = e" for dps
    by (cases e) (auto simp: damaged_def)
  have d2: "(damaged dps dt e)\<lparr>hp := hp e, bossTimeLeft := bossTimeLeft e\<rparr> = e" for dps
    by (cases e) (auto simp: damaged_def)
  from assms(2,3,4) k show ?thesis
    by (auto simp: tick_def fight_def Let_def enemyKilled_def bossEscapes_def d d2
        split: option.splits if_splits)
qed

lemma tick_boss_spawn:
  assumes "counterInv s" and "enemy s = Some e" and "\<not> isBoss e" and "tick now s dt = Some s'"
    and "enemy s' = Some e'" and "isBoss e'"
  shows "killsThisFloor s = 19 \<and> killsThisFloor s' = 20 \<and> e' = makeEnemy (floorNo s) True"
proof -
  from assms(1,2,3) have k: "killsThisFloor s < 20" by (simp add: counterInv_def)
  from assms(2-6) k show ?thesis
    by (auto simp: tick_def fight_def Let_def enemyKilled_def makeEnemy_def
        split: option.splits if_splits)
qed


lemma click_boss_pinned:
  assumes "counterInv s" and "enemy s = Some e" and "isBoss e"
  shows "(killsThisFloor (handleClick s) = 20 \<and> floorNo (handleClick s) = floorNo s \<and>
          map_option (\<lambda>e'. e'\<lparr>hp := hp e\<rparr>) (enemy (handleClick s)) = Some e)
       \<or> (killsThisFloor (handleClick s) = 0 \<and>
          enemy (handleClick s) = Some (makeEnemy (floorNo s + 1) False) \<and>
          floorNo (handleClick s) = floorNo s + 1)"
proof -
  from assms have k: "killsThisFloor s = 20" by (simp add: counterInv_def)
  from assms(2,3) k show ?thesis
    by (cases e) (auto simp: handleClick_def applyClick_def Let_def)
qed

lemma legal_append: "legal (a @ b) p \<longleftrightarrow> legal a p \<and> legal b (replay a p)"
  by (induction a p rule: legal.induct) auto

lemma onKill_next:
  "killsThisFloor (st (onKill en p)) =
     (if isBoss en then 0
      else if killsThisFloor (st p) + 1 \<ge> 20 then 20 else killsThisFloor (st p) + 1)"
  "enemy (st (onKill en p)) =
     Some (if isBoss en then makeEnemy (floorNo (st p) + 1) False
           else makeEnemy (floorNo (st p)) (killsThisFloor (st p) + 1 \<ge> 20))"
  by (simp_all add: onKill_def Let_def)

lemma legal_bulk:
  assumes "\<not> isBoss en" and "enemy (st p) = Some cur" and "\<not> isBoss cur"
    and "int c \<le> 20 - killsThisFloor (st p)"
  shows "legal (replicate c (Kill en)) p"
  using assms
proof (induction c arbitrary: p cur)
  case 0
  show ?case by simp
next
  case (Suc c)
  show ?case
  proof (cases c)
    case 0
    with Suc.prems show ?thesis by simp
  next
    case (Suc c')
    with Suc.prems(4) have k: "\<not> killsThisFloor (st p) + 1 \<ge> 20" by simp
    with Suc.prems(1) have e: "enemy (st (onKill en p)) = Some (makeEnemy (floorNo (st p)) False)"
      and k': "killsThisFloor (st (onKill en p)) = killsThisFloor (st p) + 1"
      by (simp_all add: onKill_next)
    have nb: "\<not> isBoss (makeEnemy (floorNo (st p)) False)" by (simp add: makeEnemy_def Let_def)
    from Suc.prems(4) k' have "int c \<le> 20 - killsThisFloor (st (onKill en p))" by simp
    from Suc.IH[OF Suc.prems(1) e nb this] Suc.prems(1,2,3) show ?thesis by simp
  qed
qed

lemma iteration_legal:
  assumes "enemy (st p) = Some en"
  shows "\<exists>evs. (case iteration dps en p of Continue p' \<Rightarrow> p' | Break p' \<Rightarrow> p') = replay evs p \<and> legal evs p"
proof -
  have k: "onKill en (p\<lparr>timeLeft := timeLeft p - x\<rparr>) = replay [Elapse x, Kill en] p
           \<and> legal [Elapse x, Kill en] p" for x
    using assms by simp
  have d: "isBoss e' = isBoss en \<Longrightarrow> maxHp e' = maxHp en \<Longrightarrow>
           partialDamage e' p = replay [Damage e'] p \<and> legal [Damage e'] p" for e'
    using assms by simp
  have e: "isBoss en \<Longrightarrow> bossTimesOut x p = replay [Escape x] p \<and> legal [Escape x] p" for x
    using assms by simp
  have b: "\<not> isBoss en \<Longrightarrow> 1 \<le> c \<Longrightarrow> c \<le> 20 - killsThisFloor (st p) \<Longrightarrow>
           (onKill en ^^ nat c) (p\<lparr>timeLeft := timeLeft p - x\<rparr>)
             = replay (Elapse x # replicate (nat c) (Kill en)) p
           \<and> legal (Elapse x # replicate (nat c) (Kill en)) p" for x c
    using legal_bulk[of en "p\<lparr>timeLeft := timeLeft p - x\<rparr>" en "nat c"] assms
    by (simp add: funpow_onKill_replay)
  show ?thesis
  proof (cases "isBoss en")
    case True
    then show ?thesis
      using k e d unfolding iteration_def Let_def
      by (auto split: if_splits simp del: replay.simps legal.simps)
  next
    case False
    show ?thesis
    proof (cases "hp en < maxHp en")
      case True
      with False show ?thesis
        using k d unfolding iteration_def Let_def
        by (auto split: if_splits simp del: replay.simps legal.simps)
    next
      case fresh: False
      define c where "c = (if maxHp en / dps = 0 then 20 - killsThisFloor (st p)
                         else min \<lfloor>timeLeft p / (maxHp en / dps)\<rfloor> (20 - killsThisFloor (st p)))"
      have cle: "c \<le> 20 - killsThisFloor (st p)" by (simp add: c_def)
      show ?thesis
      proof (cases "1 \<le> c")
        case True
        from b[OF False True cle] False fresh True show ?thesis
          unfolding iteration_def Let_def c_def[symmetric]
          by (auto simp del: replay.simps legal.simps)
      next
        case nb: False
        with False fresh show ?thesis
          using k d unfolding iteration_def Let_def c_def[symmetric]
          by (auto split: if_splits simp del: replay.simps legal.simps)
      qed
    qed
  qed
qed

lemma offlineLoop_legal: "\<exists>evs. offlineLoop n dps p = replay evs p \<and> legal evs p"
proof (induction n arbitrary: p)
  case 0
  have "offlineLoop 0 dps p = replay [] p \<and> legal [] p" by simp
  then show ?case by blast
next
  case (Suc n)
  have stop: "\<exists>evs. p = replay evs p \<and> legal evs p"
    by (rule exI[of _ "[]"]) simp
  show ?case
  proof (cases "timeLeft p > 0")
    case False
    with stop show ?thesis by simp
  next
    case True
    show ?thesis
    proof (cases "enemy (st p)")
      case None
      with True stop show ?thesis by simp
    next
      case (Some en)
      from iteration_legal[OF Some, of dps] obtain evs where
        evs: "(case iteration dps en p of Continue p' \<Rightarrow> p' | Break p' \<Rightarrow> p') = replay evs p"
        and l: "legal evs p" by blast
      show ?thesis
      proof (cases "iteration dps en p")
        case (Break p')
        with evs l True Some have "offlineLoop (Suc n) dps p = replay evs p \<and> legal evs p" by simp
        then show ?thesis by blast
      next
        case (Continue p')
        from Suc.IH[of p'] obtain evs' where "offlineLoop n dps p' = replay evs' p'" "legal evs' p'"
          by blast
        with Continue evs l True Some
        have "offlineLoop (Suc n) dps p = replay (evs @ evs') p \<and> legal (evs @ evs') p"
          by (simp add: replay_append legal_append)
        then show ?thesis by blast
      qed
    qed
  qed
qed


lemma simulateOffline_legal:
  assumes "simulateOffline now s seconds = Some (s', r)"
  shows "\<exists>evs. legal evs
              \<lparr>st = (case enemy s of
                        None \<Rightarrow> s\<lparr>enemy := Some (makeEnemy (floorNo s) False)\<rparr>
                      | Some _ \<Rightarrow> s),
               timeLeft = seconds, kills = 0, goldEarned = 0, floorsCleared = 0\<rparr> \<and>
           s' = (st (replay evs
              \<lparr>st = (case enemy s of
                        None \<Rightarrow> s\<lparr>enemy := Some (makeEnemy (floorNo s) False)\<rparr>
                      | Some _ \<Rightarrow> s),
               timeLeft = seconds, kills = 0, goldEarned = 0, floorsCleared = 0\<rparr>))\<lparr>lastSeen := Some now\<rparr> \<and>
           rep_kills r = int (length (filter isKill evs))"
proof -
  define s0 where "s0 = (case enemy s of
                        None \<Rightarrow> s\<lparr>enemy := Some (makeEnemy (floorNo s) False)\<rparr>
                      | Some _ \<Rightarrow> s)"
  define p0 where "p0 = \<lparr>st = s0, timeLeft = seconds, kills = 0, goldEarned = 0, floorsCleared = 0\<rparr>"
  from assms obtain dps where dps: "totalDps (heroes s0) = Some dps"
    unfolding simulateOffline_def s0_def[symmetric] Let_def by (auto split: option.splits)
  have "\<exists>evs. legal evs p0 \<and> s' = (st (replay evs p0))\<lparr>lastSeen := Some now\<rparr> \<and>
          rep_kills r = int (length (filter isKill evs))"
  proof (cases "dps \<le> 0 \<or> seconds \<le> 0")
    case True
    with assms dps have "s' = s0\<lparr>lastSeen := Some now\<rparr>" "rep_kills r = 0"
      unfolding simulateOffline_def s0_def[symmetric] Let_def by auto
    then have "legal [] p0 \<and> s' = (st (replay [] p0))\<lparr>lastSeen := Some now\<rparr> \<and>
          rep_kills r = int (length (filter isKill []))"
      by (simp add: p0_def)
    then show ?thesis by blast
  next
    case False
    from offlineLoop_legal[of 200000 dps p0] obtain evs where
      evs: "offlineLoop 200000 dps p0 = replay evs p0" "legal evs p0" by blast
    from False assms dps have "s' = (st (offlineLoop 200000 dps p0))\<lparr>lastSeen := Some now\<rparr>"
      "rep_kills r = kills (offlineLoop 200000 dps p0)"
      unfolding simulateOffline_def s0_def[symmetric] Let_def p0_def by auto
    with evs replay_kills[of evs p0]
    have "legal evs p0 \<and> s' = (st (replay evs p0))\<lparr>lastSeen := Some now\<rparr> \<and>
          rep_kills r = int (length (filter isKill evs))" by (simp add: p0_def)
    then show ?thesis by blast
  qed
  then show ?thesis unfolding p0_def s0_def .
qed

lemma tick_regular:
  assumes "enemy s = Some e" and "\<not> isBoss e" and "totalDps (heroes s) = Some dps"
  shows "\<exists>s'. tick now s dt = Some s' \<and> floorNo s' = floorNo s \<and>
           (if hp (damaged dps dt e) = 0 then
              killsThisFloor s' = (if killsThisFloor s + 1 \<ge> 20 then 20 else killsThisFloor s + 1) \<and>
              enemy s' = Some (makeEnemy (floorNo s) (killsThisFloor s + 1 \<ge> 20))
            else killsThisFloor s' = killsThisFloor s \<and> enemy s' = Some (damaged dps dt e))"
  using assms by (simp add: tick_def fight_def Let_def enemyKilled_def)

lemma click_regular:
  assumes "enemy s = Some e" and "\<not> isBoss e" and "hp e \<noteq> 0"
  shows "floorNo (handleClick s) = floorNo s \<and>
         (if hp e \<le> clickDamage (clickLevel s) then
            killsThisFloor (handleClick s)
              = (if killsThisFloor s + 1 \<ge> 20 then 20 else killsThisFloor s + 1) \<and>
            enemy (handleClick s) = Some (makeEnemy (floorNo s) (killsThisFloor s + 1 \<ge> 20))
          else killsThisFloor (handleClick s) = killsThisFloor s \<and>
               enemy (handleClick s) = Some (e\<lparr>hp := hp e - clickDamage (clickLevel s)\<rparr>))"
  using assms by (simp add: handleClick_def applyClick_def Let_def max_def)

text \<open>
  Claim C4.  The state the game starts from satisfies \<open>counterInv\<close>, and \<open>tick\<close>, the
  offline resolve, the manual attack and both purchases preserve it; so \<open>killsThisFloor\<close>
  never exceeds 20.  A tick or a manual attack on a boss either leaves that boss in place
  with the counter still at 20, or resolves it (counter 0, a fresh regular encounter, the
  floor one up or, by escape, one down).  A tick or a manual attack on a regular encounter
  that kills it sets the counter to one more, or pins it at 20 and spawns the boss of the
  floor when that reaches 20; one that does not kill it leaves the counter alone; so a boss
  appears only on the kill that takes the counter from 19 to 20.  In the offline resolve
  every \<open>onKill\<close> does the same, and the resolve is a sequence of events in order, as many
  kills as it reports: no regular enemy is killed while a boss is fought, so the boss is not
  spawned again before it is killed or escapes.
\<close>

theorem kill_counter_cap:
  "counterInv (initialSave now0) \<and>
   (counterInv s \<longrightarrow>
      killsThisFloor s \<le> 20 \<and>
      (\<forall>s'. tick now s dt = Some s' \<longrightarrow> counterInv s') \<and>
      (\<forall>s' r. simulateOffline now s seconds = Some (s', r) \<longrightarrow> counterInv s') \<and>
      counterInv (handleClick s) \<and>
      counterInv (buyClickUpgrade s qty) \<and>
      (\<forall>s'. buyHeroLevels s i qty = Some s' \<longrightarrow> counterInv s') \<and>
      (\<forall>e s'. enemy s = Some e \<and> isBoss e \<and> tick now s dt = Some s' \<longrightarrow>
         (killsThisFloor s' = 20 \<and> floorNo s' = floorNo s \<and>
          map_option (\<lambda>e'. e'\<lparr>hp := hp e, bossTimeLeft := bossTimeLeft e\<rparr>) (enemy s') = Some e)
         \<or> (killsThisFloor s' = 0 \<and> enemy s' = Some (makeEnemy (floorNo s') False) \<and>
            (floorNo s' = floorNo s + 1 \<or> floorNo s' = max 1 (floorNo s - 1)))) \<and>
      (\<forall>e s' e'. enemy s = Some e \<and> \<not> isBoss e \<and> tick now s dt = Some s' \<and>
                 enemy s' = Some e' \<and> isBoss e' \<longrightarrow>
         killsThisFloor s = 19 \<and> killsThisFloor s' = 20 \<and> e' = makeEnemy (floorNo s) True) \<and>
      (\<forall>e. enemy s = Some e \<and> isBoss e \<longrightarrow>
         (killsThisFloor (handleClick s) = 20 \<and> floorNo (handleClick s) = floorNo s \<and>
          map_option (\<lambda>e'. e'\<lparr>hp := hp e\<rparr>) (enemy (handleClick s)) = Some e)
         \<or> (killsThisFloor (handleClick s) = 0 \<and>
            enemy (handleClick s) = Some (makeEnemy (floorNo s + 1) False) \<and>
            floorNo (handleClick s) = floorNo s + 1))) \<and>
   (\<forall>e dps. enemy s = Some e \<and> \<not> isBoss e \<and> totalDps (heroes s) = Some dps \<longrightarrow>
      (\<exists>s'. tick now s dt = Some s' \<and> floorNo s' = floorNo s \<and>
           (if hp (damaged dps dt e) = 0 then
              killsThisFloor s' = (if killsThisFloor s + 1 \<ge> 20 then 20 else killsThisFloor s + 1) \<and>
              enemy s' = Some (makeEnemy (floorNo s) (killsThisFloor s + 1 \<ge> 20))
            else killsThisFloor s' = killsThisFloor s \<and> enemy s' = Some (damaged dps dt e)))) \<and>
   (\<forall>e. enemy s = Some e \<and> \<not> isBoss e \<and> hp e \<noteq> 0 \<longrightarrow>
      floorNo (handleClick s) = floorNo s \<and>
      (if hp e \<le> clickDamage (clickLevel s) then
         killsThisFloor (handleClick s)
           = (if killsThisFloor s + 1 \<ge> 20 then 20 else killsThisFloor s + 1) \<and>
         enemy (handleClick s) = Some (makeEnemy (floorNo s) (killsThisFloor s + 1 \<ge> 20))
       else killsThisFloor (handleClick s) = killsThisFloor s \<and>
            enemy (handleClick s) = Some (e\<lparr>hp := hp e - clickDamage (clickLevel s)\<rparr>))) \<and>
   killsThisFloor (st (onKill en p)) =
     (if isBoss en then 0
      else if killsThisFloor (st p) + 1 \<ge> 20 then 20 else killsThisFloor (st p) + 1) \<and>
   enemy (st (onKill en p)) =
     Some (if isBoss en then makeEnemy (floorNo (st p) + 1) False
           else makeEnemy (floorNo (st p)) (killsThisFloor (st p) + 1 \<ge> 20)) \<and>
   (\<forall>s' r. simulateOffline now s seconds = Some (s', r) \<longrightarrow>
      (\<exists>evs. legal evs
              \<lparr>st = (case enemy s of
                        None \<Rightarrow> s\<lparr>enemy := Some (makeEnemy (floorNo s) False)\<rparr>
                      | Some _ \<Rightarrow> s),
               timeLeft = seconds, kills = 0, goldEarned = 0, floorsCleared = 0\<rparr> \<and>
           s' = (st (replay evs
              \<lparr>st = (case enemy s of
                        None \<Rightarrow> s\<lparr>enemy := Some (makeEnemy (floorNo s) False)\<rparr>
                      | Some _ \<Rightarrow> s),
               timeLeft = seconds, kills = 0, goldEarned = 0, floorsCleared = 0\<rparr>))\<lparr>lastSeen := Some now\<rparr> \<and>
           rep_kills r = int (length (filter isKill evs))))"
proof -
  have cap: "counterInv s \<Longrightarrow> killsThisFloor s \<le> 20" by (simp add: counterInv_def)
  have inv: "counterInv (initialSave now0) \<and>
   (counterInv s \<longrightarrow>
      killsThisFloor s \<le> 20 \<and>
      (\<forall>s'. tick now s dt = Some s' \<longrightarrow> counterInv s') \<and>
      (\<forall>s' r. simulateOffline now s seconds = Some (s', r) \<longrightarrow> counterInv s') \<and>
      counterInv (handleClick s) \<and>
      counterInv (buyClickUpgrade s qty) \<and>
      (\<forall>s'. buyHeroLevels s i qty = Some s' \<longrightarrow> counterInv s') \<and>
      (\<forall>e s'. enemy s = Some e \<and> isBoss e \<and> tick now s dt = Some s' \<longrightarrow>
         (killsThisFloor s' = 20 \<and> floorNo s' = floorNo s \<and>
          map_option (\<lambda>e'. e'\<lparr>hp := hp e, bossTimeLeft := bossTimeLeft e\<rparr>) (enemy s') = Some e)
         \<or> (killsThisFloor s' = 0 \<and> enemy s' = Some (makeEnemy (floorNo s') False) \<and>
            (floorNo s' = floorNo s + 1 \<or> floorNo s' = max 1 (floorNo s - 1)))) \<and>
      (\<forall>e s' e'. enemy s = Some e \<and> \<not> isBoss e \<and> tick now s dt = Some s' \<and>
                 enemy s' = Some e' \<and> isBoss e' \<longrightarrow>
         killsThisFloor s = 19 \<and> killsThisFloor s' = 20 \<and> e' = makeEnemy (floorNo s) True) \<and>
      (\<forall>e. enemy s = Some e \<and> isBoss e \<longrightarrow>
         (killsThisFloor (handleClick s) = 20 \<and> floorNo (handleClick s) = floorNo s \<and>
          map_option (\<lambda>e'. e'\<lparr>hp := hp e\<rparr>) (enemy (handleClick s)) = Some e)
         \<or> (killsThisFloor (handleClick s) = 0 \<and>
            enemy (handleClick s) = Some (makeEnemy (floorNo s + 1) False) \<and>
            floorNo (handleClick s) = floorNo s + 1)))"
    using counterInv_initialSave cap counterInv_tick[of s now dt]
      counterInv_simulateOffline[of s now seconds] counterInv_handleClick[of s]
      counterInv_buyClickUpgrade[of s qty] counterInv_buyHeroLevels[of s i qty]
      tick_boss_pinned[of s _ now dt] tick_boss_spawn[of s _ now dt] click_boss_pinned[of s]
    by blast
  from inv tick_regular[of s _ _ now dt] click_regular[of s] onKill_next[of en p]
    simulateOffline_legal[of now s seconds]
  show ?thesis by blast
qed


theorem kill_counter_cap_witness:
  "counterInv
     \<lparr>gold = 0, lifetimeGold = 0, clickLevel = 1, floorNo = 1, killsThisFloor = 19,
      heroes = [\<lparr>heroId = 2, level = 1\<rparr>],
      enemy = Some \<lparr>maxHp = 10, hp = 10, isBoss = False, bossTimeLeft = None\<rparr>, lastSeen = None\<rparr>
   \<and> tick 0
     \<lparr>gold = 0, lifetimeGold = 0, clickLevel = 1, floorNo = 1, killsThisFloor = 19,
      heroes = [\<lparr>heroId = 2, level = 1\<rparr>],
      enemy = Some \<lparr>maxHp = 10, hp = 10, isBoss = False, bossTimeLeft = None\<rparr>, lastSeen = None\<rparr> 3
     = Some \<lparr>gold = 0.51, lifetimeGold = 0.51, clickLevel = 1, floorNo = 1, killsThisFloor = 20,
      heroes = [\<lparr>heroId = 2, level = 1\<rparr>],
      enemy = Some \<lparr>maxHp = 120, hp = 120, isBoss = True, bossTimeLeft = Some 30\<rparr>, lastSeen = Some 0\<rparr>
   \<and> counterInv
     \<lparr>gold = 0.51, lifetimeGold = 0.51, clickLevel = 1, floorNo = 1, killsThisFloor = 20,
      heroes = [\<lparr>heroId = 2, level = 1\<rparr>],
      enemy = Some \<lparr>maxHp = 120, hp = 120, isBoss = True, bossTimeLeft = Some 30\<rparr>, lastSeen = Some 0\<rparr>"
proof -
  let ?e = "\<lparr>maxHp = 10, hp = 10, isBoss = False, bossTimeLeft = None\<rparr> :: Enemy"
  let ?s = "\<lparr>gold = 0, lifetimeGold = 0, clickLevel = 1, floorNo = 1, killsThisFloor = 19,
      heroes = [\<lparr>heroId = 2, level = 1\<rparr>], enemy = Some ?e, lastSeen = None\<rparr> :: State"
  let ?s' = "\<lparr>gold = 0.51, lifetimeGold = 0.51, clickLevel = 1, floorNo = 1, killsThisFloor = 20,
      heroes = [\<lparr>heroId = 2, level = 1\<rparr>],
      enemy = Some \<lparr>maxHp = 120, hp = 120, isBoss = True, bossTimeLeft = Some 30\<rparr>, lastSeen = Some 0\<rparr> :: State"
  have inv: "counterInv ?s" by (simp add: counterInv_def)
  have t: "tick 0 ?s 3 = Some ?s'"
    by (simp add: tick_def fight_def totalDps_def heroesById_def HEROES_def damaged_def Let_def
        enemyKilled_def goldRewardFor_def makeEnemy_def)
  note step = kill_counter_cap[where s = ?s and now = 0 and dt = 3,
      THEN conjunct2, THEN conjunct1, THEN mp, OF inv]
  from step[THEN conjunct2, THEN conjunct1, THEN spec, THEN mp, OF t]
  have "counterInv ?s'" .
  with inv t show ?thesis by (intro conjI)
qed

section \<open>Ticks against the offline resolve, over exact arithmetic\<close>

subsection \<open>The loop reads only the state and the time left\<close>

lemma onKill_st: "st (onKill en p) = enemyKilled (st p) en"
  by (simp add: onKill_def enemyKilled_def Let_def)

lemma onKill_timeLeft [simp]: "timeLeft (onKill en p) = timeLeft p"
  by (simp add: onKill_def Let_def)

lemma bossTimesOut_st: "st (bossTimesOut x p) = bossEscapes (st p)"
  by (simp add: bossTimesOut_def bossEscapes_def Let_def)

lemma bossTimesOut_timeLeft [simp]: "timeLeft (bossTimesOut x p) = timeLeft p - x"
  by (simp add: bossTimesOut_def Let_def)

lemma enemyKilled_lastSeen: "enemyKilled (s\<lparr>lastSeen := x\<rparr>) e = (enemyKilled s e)\<lparr>lastSeen := x\<rparr>"
  by (simp add: enemyKilled_def Let_def)

lemma bossEscapes_lastSeen: "bossEscapes (s\<lparr>lastSeen := x\<rparr>) = (bossEscapes s)\<lparr>lastSeen := x\<rparr>"
  by (simp add: bossEscapes_def Let_def)

lemma view_onKill: "view (onKill en p) = (enemyKilled (fst (view p)) en, snd (view p))"
  by (simp add: view_def onKill_st enemyKilled_lastSeen)

lemma view_bossTimesOut: "view (bossTimesOut x p) = (bossEscapes (fst (view p)), snd (view p) - x)"
  by (simp add: view_def bossTimesOut_st bossEscapes_lastSeen)

lemma view_partialDamage: "view (partialDamage e p) = ((fst (view p))\<lparr>enemy := Some e\<rparr>, 0)"
  by (simp add: view_def partialDamage_def)

lemma view_timeLeft: "view (p\<lparr>timeLeft := x\<rparr>) = (fst (view p), x)"
  by (simp add: view_def)

lemma view_funpow_onKill:
  "view ((onKill en ^^ k) p) = (((\<lambda>s. enemyKilled s en) ^^ k) (fst (view p)), snd (view p))"
  by (induction k) (simp_all add: view_onKill)

lemma view_reads:
  assumes "view p = view q"
  shows "timeLeft p = timeLeft q" "killsThisFloor (st p) = killsThisFloor (st q)"
    "enemy (st p) = enemy (st q)"
proof -
  from assms have a: "(st p)\<lparr>lastSeen := None\<rparr> = (st q)\<lparr>lastSeen := None\<rparr>" and b: "timeLeft p = timeLeft q"
    by (simp_all add: view_def)
  show "timeLeft p = timeLeft q" by (rule b)
  from a have "killsThisFloor ((st p)\<lparr>lastSeen := None\<rparr>) = killsThisFloor ((st q)\<lparr>lastSeen := None\<rparr>)"
    by simp
  then show "killsThisFloor (st p) = killsThisFloor (st q)" by simp
  from a have "enemy ((st p)\<lparr>lastSeen := None\<rparr>) = enemy ((st q)\<lparr>lastSeen := None\<rparr>)"
    by simp
  then show "enemy (st p) = enemy (st q)" by simp
qed

lemma flowView_iteration:
  "flowView (iteration dps en p) =
     (if \<not> isBoss en then
        if hp en < maxHp en then
          if snd (view p) \<ge> hp en / dps then
            (True, enemyKilled (fst (view p)) en, snd (view p) - hp en / dps)
          else (False, (fst (view p))\<lparr>enemy := Some (en\<lparr>hp := max 0 (hp en - dps * snd (view p))\<rparr>)\<rparr>, 0)
        else
          let remainingToBoss = 20 - killsThisFloor (fst (view p));
              perKill = maxHp en / dps;
              canBulk = (if perKill = 0 then remainingToBoss
                         else min \<lfloor>snd (view p) / perKill\<rfloor> remainingToBoss)
          in
          if canBulk \<ge> 1 then
            (True, ((\<lambda>s. enemyKilled s en) ^^ nat canBulk) (fst (view p)),
             snd (view p) - of_int canBulk * perKill)
          else if snd (view p) \<ge> perKill then
            (True, enemyKilled (fst (view p)) en, snd (view p) - perKill)
          else (False, (fst (view p))\<lparr>enemy := Some (en\<lparr>hp := max 0 (hp en - dps * snd (view p))\<rparr>)\<rparr>, 0)
      else
        let timeToKill = hp en / dps;
            timeAvailable = min (case bossTimeLeft en of None \<Rightarrow> 30 | Some t \<Rightarrow> t) (snd (view p))
        in
        if timeToKill \<le> timeAvailable then
          (True, enemyKilled (fst (view p)) en, snd (view p) - timeToKill)
        else
          let left = (case bossTimeLeft en of None \<Rightarrow> 0 | Some t \<Rightarrow> t) in
          if snd (view p) < left then
            (False, (fst (view p))\<lparr>enemy := Some (en\<lparr>hp := max 0 (hp en - dps * snd (view p)),
                         bossTimeLeft := Some (left - snd (view p))\<rparr>)\<rparr>, 0)
          else (True, bossEscapes (fst (view p)), snd (view p) - left))"
proof -
  have v: "snd (view p) = timeLeft p" "killsThisFloor (fst (view p)) = killsThisFloor (st p)"
    by (simp_all add: view_def)
  show ?thesis
    unfolding v iteration_def Let_def
    by (simp add: view_onKill view_bossTimesOut view_partialDamage view_timeLeft view_funpow_onKill v)
qed

lemma flowView_cong:
  assumes "view p = view q"
  shows "flowView (iteration dps en p) = flowView (iteration dps en q)"
  unfolding flowView_iteration assms by (rule refl)

lemma offlineLoop_view:
  "view p = view q \<Longrightarrow> view (offlineLoop n dps p) = view (offlineLoop n dps q)"
proof (induction n arbitrary: p q)
  case 0
  then show ?case by simp
next
  case (Suc n)
  note r = view_reads[OF Suc.prems]
  show ?case
  proof (cases "timeLeft p > 0")
    case False
    with r Suc.prems show ?thesis by simp
  next
    case True
    show ?thesis
    proof (cases "enemy (st p)")
      case None
      with True r Suc.prems show ?thesis by simp
    next
      case (Some en)
      from flowView_cong[OF Suc.prems, of dps en]
      have fv: "flowView (iteration dps en p) = flowView (iteration dps en q)" .
      show ?thesis
      proof (cases "iteration dps en p")
        case (Continue p')
        with fv obtain q' where q': "iteration dps en q = Continue q'" "view p' = view q'"
          by (cases "iteration dps en q") simp_all
        with Continue True Some r Suc.IH[of p' q'] show ?thesis by simp
      next
        case (Break p')
        with fv obtain q' where q': "iteration dps en q = Break q'" "view p' = view q'"
          by (cases "iteration dps en q") simp_all
        with Break True Some r show ?thesis by simp
      qed
    qed
  qed
qed

subsection \<open>More fuel does not change a finished loop\<close>

lemma offlineLoop_no_time: "timeLeft p \<le> 0 \<Longrightarrow> offlineLoop n dps p = p"
  by (cases n) simp_all

lemma iteration_Break_timeLeft: "iteration dps en p = Break p' \<Longrightarrow> timeLeft p' = 0"
  by (auto simp: iteration_def Let_def partialDamage_def split: if_splits)

lemma offlineLoop_more_fuel:
  "timeLeft (offlineLoop n dps p) \<le> 0 \<Longrightarrow> offlineLoop (n + m) dps p = offlineLoop n dps p"
proof (induction n arbitrary: p)
  case 0
  then show ?case by (simp add: offlineLoop_no_time)
next
  case (Suc n)
  show ?case
  proof (cases "timeLeft p > 0")
    case False
    then show ?thesis by simp
  next
    case True
    show ?thesis
    proof (cases "enemy (st p)")
      case None
      with True show ?thesis by simp
    next
      case (Some en)
      show ?thesis
      proof (cases "iteration dps en p")
        case (Continue p')
        with True Some Suc.prems have "timeLeft (offlineLoop n dps p') \<le> 0" by simp
        from Suc.IH[OF this] Continue True Some show ?thesis by simp
      next
        case (Break p')
        with True Some show ?thesis by simp
      qed
    qed
  qed
qed

lemma offlineLoop_fuel_le:
  assumes "timeLeft (offlineLoop n dps p) \<le> 0" and "n \<le> n'"
  shows "offlineLoop n' dps p = offlineLoop n dps p"
  using offlineLoop_more_fuel[OF assms(1), of "n' - n"] assms(2) by simp

lemma offlineLoop_finished_fuel:
  assumes "timeLeft (offlineLoop n dps p) \<le> 0" and "timeLeft p > 0"
  shows "\<exists>k. n = Suc k"
  using assms by (cases n) simp_all

subsection \<open>Wearing an encounter down, and resolving it\<close>

lemma makeEnemy_sel [simp]:
  "isBoss (makeEnemy fl b) = b" "hp (makeEnemy fl b) = maxHp (makeEnemy fl b)"
  "bossTimeLeft (makeEnemy fl b) = (if b then Some 30 else None)"
  by (simp_all add: makeEnemy_def Let_def)

lemma makeEnemy_maxHp_pos: "0 < maxHp (makeEnemy fl b)"
  by (simp add: makeEnemy_def Let_def zero_less_power_int)

lemma enemyKilled_cong:
  "maxHp a = maxHp b \<Longrightarrow> isBoss a = isBoss b \<Longrightarrow> enemyKilled s a = enemyKilled s b"
  by (simp add: enemyKilled_def goldRewardFor_def Let_def)

lemma worn_sel [simp]:
  "maxHp (worn dps x e) = maxHp e" "isBoss (worn dps x e) = isBoss e"
  "hp (worn dps x e) = hp e - dps * x"
  by (simp_all add: worn_def)

lemma worn_zero [simp]: "worn dps 0 e = e"
  by (cases e) (auto simp: worn_def option.map_ident)

lemma worn_worn: "worn dps y (worn dps x e) = worn dps (x + y) e"
  by (cases e) (auto simp: worn_def algebra_simps option.map_comp comp_def)

lemma untilResolved_pos:
  assumes "liveEncounter s" and "enemy s = Some e" and "0 < dps"
  shows "0 < untilResolved dps e"
  using assms by (auto simp: liveEncounter_def untilResolved_def split: option.splits if_splits)

lemma untilResolved_worn:
  assumes "0 < dps"
  shows "untilResolved dps (worn dps x e) = untilResolved dps e - x"
proof -
  have "(hp e - dps * x) / dps = hp e / dps - x" using assms by (simp add: field_simps)
  then show ?thesis
    by (cases "bossTimeLeft e") (auto simp: untilResolved_def worn_def)
qed

lemma live_worn:
  assumes "liveEncounter s" and "enemy s = Some e" and "0 < dps" and "0 \<le> x"
    and "x < untilResolved dps e"
  shows "liveEncounter (s\<lparr>enemy := Some (worn dps x e)\<rparr>)"
proof -
  from assms(3,5) have "x < hp e / dps"
    by (auto simp: untilResolved_def split: option.splits if_splits)
  with assms(3) have h: "dps * x < hp e" by (simp add: field_simps)
  from assms(3,4) have "0 \<le> dps * x" by simp
  then have le: "hp e - dps * x \<le> hp e" by simp
  from h have pos: "0 < hp e - dps * x" by simp
  show ?thesis
  proof (cases "isBoss e")
    case False
    with assms(1,2) le pos show ?thesis
      by (simp add: liveEncounter_def worn_def)
  next
    case True
    with assms(1,2) obtain t where t: "bossTimeLeft e = Some t" "0 < t"
      by (auto simp: liveEncounter_def split: option.splits)
    with True assms(5) have "x < t" by (simp add: untilResolved_def)
    with True t assms(1,2) le pos show ?thesis
      by (simp add: liveEncounter_def worn_def)
  qed
qed

lemma settled_worn:
  assumes "0 < dps"
  shows "settled dps (s\<lparr>enemy := y\<rparr>) (worn dps x e) = settled dps s e"
proof -
  have q: "(hp e - dps * x) / dps = hp e / dps - x" using assms by (simp add: field_simps)
  have k: "enemyKilled (s\<lparr>enemy := y\<rparr>) (worn dps x e) = enemyKilled s e"
    using enemyKilled_cong[of "worn dps x e" e] by (simp add: enemyKilled_enemy_irrelevant)
  have b: "bossTimeLeft (worn dps x e)
             = (if isBoss e then map_option (\<lambda>t. t - x) (bossTimeLeft e) else bossTimeLeft e)"
    by (simp add: worn_def)
  show ?thesis
    by (cases "bossTimeLeft e"; cases "isBoss e")
       (simp_all add: settled_def k bossEscapes_enemy_irrelevant q b)
qed

lemma live_settled:
  assumes "liveEncounter s" and "enemy s = Some e"
  shows "liveEncounter (settled dps s e)"
  using assms makeEnemy_maxHp_pos
  by (auto simp: liveEncounter_def settled_def enemyKilled_def bossEscapes_def Let_def
      split: option.splits if_splits)

subsection \<open>What a tick does in a live state\<close>

lemma fight_wears:
  assumes "liveEncounter s" and "enemy s = Some e" and "0 < dps" and "0 \<le> dt"
    and "dt < untilResolved dps e"
  shows "fight dps dt s e = s\<lparr>enemy := Some (worn dps dt e)\<rparr>"
proof -
  from assms(3,5) have "dt < hp e / dps"
    by (auto simp: untilResolved_def split: option.splits if_splits)
  with assms(3) have h: "dps * dt < hp e" by (simp add: field_simps)
  from assms(1,2) have hp: "0 < hp e" by (simp add: liveEncounter_def)
  have d: "damaged dps dt e = e\<lparr>hp := hp e - dps * dt\<rparr>"
    using h hp assms(3) by (simp add: damaged_def max_def)
  show ?thesis
  proof (cases "isBoss e")
    case False
    with d h show ?thesis by (simp add: fight_def Let_def worn_def)
  next
    case True
    with assms(1,2) obtain t where t: "bossTimeLeft e = Some t" "0 < t"
      by (auto simp: liveEncounter_def split: option.splits)
    with True assms(5) have "dt < t" by (simp add: untilResolved_def)
    with True t d h show ?thesis by (simp add: fight_def Let_def worn_def max_def)
  qed
qed

lemma fight_settles:
  assumes "liveEncounter s" and "enemy s = Some e" and "0 < dps"
    and "dt = untilResolved dps e"
  shows "fight dps dt s e = settled dps s e"
proof -
  from assms(1,2) have hp: "0 < hp e" by (simp add: liveEncounter_def)
  show ?thesis
  proof (cases "isBoss e")
    case False
    with assms(4) have dt: "dt = hp e / dps" by (simp add: untilResolved_def)
    with assms(3) have "dps * dt = hp e" by simp
    with hp assms(3) have d: "damaged dps dt e = e\<lparr>hp := 0\<rparr>" by (simp add: damaged_def)
    have "enemyKilled (s\<lparr>enemy := Some (e\<lparr>hp := 0\<rparr>)\<rparr>) (e\<lparr>hp := 0\<rparr>) = enemyKilled s e"
      using enemyKilled_cong[of "e\<lparr>hp := 0\<rparr>" e] by (simp add: enemyKilled_enemy_irrelevant)
    with False d show ?thesis by (simp add: fight_def Let_def settled_def)
  next
    case True
    with assms(1,2) obtain t where t: "bossTimeLeft e = Some t" "0 < t"
      by (auto simp: liveEncounter_def split: option.splits)
    show ?thesis
    proof (cases "t < hp e / dps")
      case esc: True
      with True t assms(4) have dt: "dt = t" by (simp add: untilResolved_def)
      from esc assms(3) have h: "dps * t < hp e" by (simp add: field_simps)
      with hp assms(3) dt have d: "damaged dps dt e = e\<lparr>hp := hp e - dps * t\<rparr>"
        by (simp add: damaged_def max_def)
      from True t d dt h esc show ?thesis
        by (simp add: fight_def Let_def settled_def bossEscapes_enemy_irrelevant)
    next
      case kill: False
      with True t assms(4) have dt: "dt = hp e / dps" by (simp add: untilResolved_def)
      with assms(3) have "dps * dt = hp e" by simp
      with hp assms(3) have d: "damaged dps dt e = e\<lparr>hp := 0\<rparr>" by (simp add: damaged_def)
      have "enemyKilled (s\<lparr>enemy := Some (e\<lparr>hp := 0, bossTimeLeft := x\<rparr>)\<rparr>) (e\<lparr>hp := 0, bossTimeLeft := x\<rparr>)
              = enemyKilled s e" for x
        using enemyKilled_cong[of "e\<lparr>hp := 0, bossTimeLeft := x\<rparr>" e]
        by (simp add: enemyKilled_enemy_irrelevant)
      with True t d kill show ?thesis by (simp add: fight_def Let_def settled_def)
    qed
  qed
qed

subsection \<open>One pass of the loop in a live state\<close>

lemma flowView_Break: "flowView f = (False, v) \<Longrightarrow> \<exists>p'. f = Break p' \<and> view p' = v"
  by (cases f) simp_all

lemma flowView_Continue: "flowView f = (True, v) \<Longrightarrow> \<exists>p'. f = Continue p' \<and> view p' = v"
  by (cases f) simp_all

lemma view_state:
  assumes "view p = (s, T)"
  shows "timeLeft p = T" "enemy (st p) = enemy s" "fst (view p) = s" "snd (view p) = T"
  using assms by (auto simp: view_def)

lemma live_hp:
  assumes "liveEncounter s" and "enemy s = Some e"
  shows "0 < hp e" "hp e \<le> maxHp e"
  using assms by (simp_all add: liveEncounter_def)

lemma live_boss_timer:
  assumes "liveEncounter s" and "enemy s = Some e" and "isBoss e"
  shows "\<exists>t. bossTimeLeft e = Some t \<and> 0 < t"
  using assms by (auto simp: liveEncounter_def split: option.splits)

lemma live_regular:
  assumes "liveEncounter s" and "enemy s = Some e" and "\<not> isBoss e"
  shows "maxHp e = maxHp (makeEnemy (floorNo s) False)" "killsThisFloor s < 20"
  using assms by (simp_all add: liveEncounter_def)

lemma iteration_partial:
  assumes live: "liveEncounter s" and e: "enemy s = Some e" and dps: "0 < dps"
    and v: "view p = (s, T)" and T: "0 < T" "T < untilResolved dps e"
  shows "flowView (iteration dps e p) = (False, s\<lparr>enemy := Some (worn dps T e)\<rparr>, 0)"
proof -
  note hp = live_hp[OF live e]
  from dps T(2) have lt: "T < hp e / dps"
    by (auto simp: untilResolved_def split: option.splits if_splits)
  with dps have h: "dps * T < hp e" by (simp add: field_simps)
  then have m: "max 0 (hp e - dps * T) = hp e - dps * T" by simp
  show ?thesis
  proof (cases "isBoss e")
    case True
    from live_boss_timer[OF live e True] obtain t where t: "bossTimeLeft e = Some t" "0 < t" by blast
    with True T(2) have "T < t" by (simp add: untilResolved_def)
    with True t lt m show ?thesis
      unfolding flowView_iteration view_state(3,4)[OF v]
      by (simp add: Let_def worn_def)
  next
    case False
    show ?thesis
    proof (cases "hp e < maxHp e")
      case True
      with False lt m show ?thesis
        unfolding flowView_iteration view_state(3,4)[OF v]
        by (simp add: Let_def worn_def)
    next
      case fresh: False
      with hp have eq: "hp e = maxHp e" by simp
      with hp dps have pk: "0 < maxHp e / dps" by simp
      from lt eq have lt': "T < maxHp e / dps" by simp
      with pk have "T / (maxHp e / dps) < 1" by (simp only: divide_less_eq_1_pos)
      moreover from hp eq dps T(1) have "0 \<le> T / (maxHp e / dps)" by simp
      ultimately have fl: "\<lfloor>T / (maxHp e / dps)\<rfloor> = 0" by linarith
      from hp eq dps have ne: "maxHp e / dps \<noteq> 0" by simp
      have cb: "\<not> 1 \<le> min 0 (20 - killsThisFloor s)" by simp
      from False fresh lt' m ne fl cb show ?thesis
        unfolding flowView_iteration view_state(3,4)[OF v] Let_def
        by (simp add: worn_def del: min.bounded_iff min.absorb1 min.absorb2 min.absorb3 min.absorb4)
    qed
  qed
qed

lemma iteration_settles:
  assumes live: "liveEncounter s" and e: "enemy s = Some e" and dps: "0 < dps"
    and v: "view p = (s, T)" and T: "untilResolved dps e \<le> T"
    and nf: "isBoss e \<or> hp e < maxHp e"
  shows "flowView (iteration dps e p) = (True, settled dps s e, T - untilResolved dps e)"
proof (cases "isBoss e")
  case False
  with nf have "hp e < maxHp e" by simp
  with False T show ?thesis
    unfolding flowView_iteration view_state(3,4)[OF v]
    by (simp add: untilResolved_def settled_def)
next
  case True
  from live_boss_timer[OF live e True] obtain t where t: "bossTimeLeft e = Some t" "0 < t" by blast
  show ?thesis
  proof (cases "t < hp e / dps")
    case esc: True
    with True t have u: "untilResolved dps e = t" by (simp add: untilResolved_def)
    from esc T u have "\<not> hp e / dps \<le> min t T" by simp
    with True t esc T u show ?thesis
      unfolding flowView_iteration view_state(3,4)[OF v] Let_def
      by (simp add: settled_def del: min.bounded_iff)
  next
    case kill: False
    with True t have u: "untilResolved dps e = hp e / dps" by (simp add: untilResolved_def)
    from kill T u have "hp e / dps \<le> min t T" by simp
    with True t kill u show ?thesis
      unfolding flowView_iteration view_state(3,4)[OF v] Let_def
      by (simp add: settled_def del: min.bounded_iff)
  qed
qed

lemma iteration_bulk:
  assumes live: "liveEncounter s" and e: "enemy s = Some e" and dps: "0 < dps"
    and v: "view p = (s, T)" and T: "untilResolved dps e \<le> T"
    and fresh: "\<not> isBoss e" "hp e = maxHp e"
  defines "c \<equiv> min \<lfloor>T / untilResolved dps e\<rfloor> (20 - killsThisFloor s)"
  shows "flowView (iteration dps e p) =
           (True, ((\<lambda>s. enemyKilled s e) ^^ nat c) s, T - of_int c * untilResolved dps e)"
    and "1 \<le> c"
proof -
  note hp = live_hp[OF live e]
  from fresh have u: "untilResolved dps e = maxHp e / dps" by (simp add: untilResolved_def)
  from hp fresh dps have pk: "0 < maxHp e / dps" by simp
  from T u pk have "1 \<le> T / (maxHp e / dps)" by (simp only: le_divide_eq_1_pos)
  then have "1 \<le> \<lfloor>T / (maxHp e / dps)\<rfloor>" by linarith
  moreover from live_regular[OF live e fresh(1)] have "1 \<le> 20 - killsThisFloor s" by simp
  ultimately show c1: "1 \<le> c" by (simp add: c_def u)
  from hp fresh dps have ne: "maxHp e / dps \<noteq> 0" by simp
  from fresh ne c1 show "flowView (iteration dps e p) =
           (True, ((\<lambda>s. enemyKilled s e) ^^ nat c) s, T - of_int c * untilResolved dps e)"
    unfolding flowView_iteration view_state(3,4)[OF v] Let_def c_def u
    by (simp del: min.bounded_iff)
qed

subsection \<open>A pass of the loop against the encounter's resolution\<close>

lemma loop_continue:
  assumes "0 < timeLeft p" and "enemy (st p) = Some e"
    and "flowView (iteration dps e p) = (True, v)"
  shows "\<exists>p1. view p1 = v \<and> offlineLoop (Suc n) dps p = offlineLoop n dps p1"
proof -
  from flowView_Continue[OF assms(3)] obtain p1 where "iteration dps e p = Continue p1" "view p1 = v"
    by blast
  with assms(1,2) have "view p1 = v \<and> offlineLoop (Suc n) dps p = offlineLoop n dps p1" by simp
  then show ?thesis by blast
qed

lemma loop_break:
  assumes "0 < timeLeft p" and "enemy (st p) = Some e"
    and "flowView (iteration dps e p) = (False, v)"
  shows "view (offlineLoop (Suc n) dps p) = v"
proof -
  from flowView_Break[OF assms(3)] obtain p1 where "iteration dps e p = Break p1" "view p1 = v"
    by blast
  with assms(1,2) show ?thesis by simp
qed

lemma settled_regular: "\<not> isBoss e \<Longrightarrow> settled dps s e = enemyKilled s e"
  by (simp add: settled_def)

lemma enemyKilled_regular:
  assumes "\<not> isBoss e" and "killsThisFloor s + 1 < 20"
  shows "enemy (enemyKilled s e) = Some (makeEnemy (floorNo s) False)"
    and "killsThisFloor (enemyKilled s e) = killsThisFloor s + 1"
    and "floorNo (enemyKilled s e) = floorNo s"
  using assms by (simp_all add: enemyKilled_def Let_def)

lemma loop_settles:
  assumes live: "liveEncounter s" and e: "enemy s = Some e" and dps: "0 < dps"
    and v: "view p = (s, T)" and T: "untilResolved dps e \<le> T"
    and q: "view q = (settled dps s e, T - untilResolved dps e)"
    and fin: "timeLeft (offlineLoop m dps q) \<le> 0" and mm: "m \<le> m'"
  shows "view (offlineLoop (Suc m') dps p) = view (offlineLoop m dps q)"
proof -
  define u where "u = untilResolved dps e"
  have upos: "0 < u" unfolding u_def by (rule untilResolved_pos[OF live e dps])
  with T have Tpos: "0 < T" by (simp add: u_def)
  have tl: "0 < timeLeft p" and en: "enemy (st p) = Some e"
    using view_state(1,2)[OF v] Tpos e by simp_all
  have key: "view (offlineLoop m' dps p1) = view (offlineLoop m dps q)" if "view p1 = view q" for p1
    using offlineLoop_view[OF that, of m' dps] offlineLoop_fuel_le[OF fin mm] by simp
  show ?thesis
  proof (cases "isBoss e \<or> hp e < maxHp e")
    case True
    from iteration_settles[OF live e dps v T True] q
    have "flowView (iteration dps e p) = (True, view q)" by simp
    from loop_continue[OF tl en this, of m'] key show ?thesis by auto
  next
    case False
    with live_hp[OF live e] have fresh: "\<not> isBoss e" "hp e = maxHp e" by auto
    define c where "c = min \<lfloor>T / untilResolved dps e\<rfloor> (20 - killsThisFloor s)"
    note bulk = iteration_bulk[OF live e dps v T fresh, folded c_def]
    from loop_continue[OF tl en bulk(1), of m'] obtain p1 where
      p1: "view p1 = (((\<lambda>s. enemyKilled s e) ^^ nat c) s, T - of_int c * untilResolved dps e)"
      and l1: "offlineLoop (Suc m') dps p = offlineLoop m' dps p1" by blast
    show ?thesis
    proof (cases "c = 1")
      case True
      with p1 q fresh have "view p1 = view q" by (simp add: settled_regular)
      from key[OF this] l1 show ?thesis by simp
    next
      case False
      with bulk(2) have c2: "2 \<le> c" by simp
      then have k: "killsThisFloor s + 1 < 20" and fl2: "2 \<le> \<lfloor>T / u\<rfloor>"
        by (simp_all add: c_def u_def)
      define s1 where "s1 = settled dps s e"
      define e1 where "e1 = makeEnemy (floorNo s) False"
      have s1: "s1 = enemyKilled s e" by (simp add: s1_def settled_regular fresh)
      have live1: "liveEncounter s1" unfolding s1_def by (rule live_settled[OF live e])
      have en1: "enemy s1 = Some e1" "killsThisFloor s1 = killsThisFloor s + 1"
        using enemyKilled_regular[OF fresh(1) k] by (simp_all add: s1 e1_def)
      have fresh1: "\<not> isBoss e1" "hp e1 = maxHp e1" by (simp_all add: e1_def)
      have mh: "maxHp e1 = maxHp e" using live_regular(1)[OF live e fresh(1)] by (simp add: e1_def)
      have ue: "u = maxHp e / dps" using fresh by (simp add: u_def untilResolved_def)
      have u1: "untilResolved dps e1 = u" using fresh1 mh by (simp add: untilResolved_def ue)
      from fl2 have "2 \<le> T / u" by linarith
      with upos have T2: "2 * u \<le> T" by (simp add: field_simps)
      with upos have T1: "untilResolved dps e1 \<le> T - u" by (simp add: u1)
      from T2 upos have T1pos: "0 < T - u" by simp
      have vq: "view q = (s1, T - u)" using q by (simp add: s1_def u_def)
      from offlineLoop_finished_fuel[OF fin] view_state(1)[OF vq] T1pos
      obtain j where j: "m = Suc j" by auto
      define c1 where "c1 = min \<lfloor>(T - u) / untilResolved dps e1\<rfloor> (20 - killsThisFloor s1)"
      note bulk1 = iteration_bulk[OF live1 en1(1) dps vq T1 fresh1, folded c1_def]
      have "(T - u) / u = T / u - 1" using upos by (simp add: field_simps)
      then have cc: "c1 = c - 1" by (simp add: c1_def c_def u1 en1(2) u_def[symmetric])
      have tlq: "0 < timeLeft q" and enq: "enemy (st q) = Some e1"
        using view_state(1,2)[OF vq] T1pos en1 by simp_all
      from loop_continue[OF tlq enq bulk1(1), of j] obtain q1 where
        q1: "view q1 = (((\<lambda>s. enemyKilled s e1) ^^ nat c1) s1, T - u - of_int c1 * untilResolved dps e1)"
        and lq: "offlineLoop (Suc j) dps q = offlineLoop j dps q1" by blast
      have K: "(\<lambda>s. enemyKilled s e1) = (\<lambda>s. enemyKilled s e)"
        using enemyKilled_cong[of e1 e] mh fresh fresh1 by auto
      from c2 have nc: "nat c = Suc (nat (c - 1))" by simp
      have st: "((\<lambda>s. enemyKilled s e) ^^ nat c) s = ((\<lambda>s. enemyKilled s e1) ^^ nat c1) s1"
        unfolding K cc nc s1
        using funpow_swap1[of "\<lambda>s. enemyKilled s e" "nat (c - 1)" s] by simp
      have tm: "T - of_int c * untilResolved dps e = T - u - of_int c1 * untilResolved dps e1"
        unfolding cc u1 u_def[symmetric] by (simp add: algebra_simps)
      from p1 q1 st tm have same: "view p1 = view q1" by simp
      from fin j lq have fin1: "timeLeft (offlineLoop j dps q1) \<le> 0" by simp
      from mm j have jm: "j \<le> m'" by simp
      have "view (offlineLoop m' dps p1) = view (offlineLoop m' dps q1)"
        by (rule offlineLoop_view[OF same])
      also have "offlineLoop m' dps q1 = offlineLoop j dps q1"
        by (rule offlineLoop_fuel_le[OF fin1 jm])
      finally show ?thesis using l1 lq j by simp
    qed
  qed
qed

subsection \<open>A tick, then the loop; against the loop alone\<close>

lemma tick_then_loop:
  assumes live: "liveEncounter s" and e: "enemy s = Some e" and dps: "0 < dps"
    and dt: "0 \<le> dt" "dt \<le> untilResolved dps e"
    and v: "view p = (s, T' + dt)" and T': "0 \<le> T'"
    and v': "view p' = (fight dps dt s e, T')"
    and fin: "timeLeft (offlineLoop n dps p') \<le> 0"
  shows "view (offlineLoop (Suc n) dps p) = view (offlineLoop n dps p')"
proof (cases "dt = untilResolved dps e")
  case True
  from v True have vp: "view p = (s, T' + untilResolved dps e)" by simp
  have le: "untilResolved dps e \<le> T' + untilResolved dps e" using T' by simp
  from v' True have vq: "view p' = (settled dps s e, T' + untilResolved dps e - untilResolved dps e)"
    by (simp add: fight_settles[OF live e dps])
  show ?thesis by (rule loop_settles[OF live e dps vp le vq fin order_refl])
next
  case False
  with dt have lt: "dt < untilResolved dps e" by simp
  define s' where "s' = s\<lparr>enemy := Some (worn dps dt e)\<rparr>"
  have f: "fight dps dt s e = s'" unfolding s'_def by (rule fight_wears[OF live e dps dt(1) lt])
  have live': "liveEncounter s'" unfolding s'_def by (rule live_worn[OF live e dps dt(1) lt])
  have e': "enemy s' = Some (worn dps dt e)" by (simp add: s'_def)
  have u': "untilResolved dps (worn dps dt e) = untilResolved dps e - dt"
    by (rule untilResolved_worn[OF dps])
  from v' f have vp': "view p' = (s', T')" by simp
  show ?thesis
  proof (cases "dt = 0")
    case True
    with v vp' have same: "view p = view p'" by (simp add: s'_def e[symmetric])
    have "view (offlineLoop (Suc n) dps p) = view (offlineLoop (Suc n) dps p')"
      by (rule offlineLoop_view[OF same])
    also have "offlineLoop (Suc n) dps p' = offlineLoop n dps p'"
      by (rule offlineLoop_fuel_le[OF fin]) simp
    finally show ?thesis .
  next
    case nz: False
    with dt have dtpos: "0 < dt" by simp
    with T' have Tpos: "0 < T' + dt" by simp
    have tl: "0 < timeLeft p" and en: "enemy (st p) = Some e"
      using view_state(1,2)[OF v] Tpos e by simp_all
    show ?thesis
    proof (cases "T' + dt < untilResolved dps e")
      case True
      from loop_break[OF tl en iteration_partial[OF live e dps v Tpos True], of n]
      have lhs: "view (offlineLoop (Suc n) dps p) = (s\<lparr>enemy := Some (worn dps (T' + dt) e)\<rparr>, 0)" .
      show ?thesis
      proof (cases "T' = 0")
        case True
        with vp' have "timeLeft p' \<le> 0" using view_state(1)[OF vp'] by simp
        then have "offlineLoop n dps p' = p'" by (rule offlineLoop_no_time)
        with lhs vp' True show ?thesis by (simp add: s'_def)
      next
        case False
        with T' have T'pos: "0 < T'" by simp
        from True u' have lt': "T' < untilResolved dps (worn dps dt e)" by simp
        have tl': "0 < timeLeft p'" and en': "enemy (st p') = Some (worn dps dt e)"
          using view_state(1,2)[OF vp'] T'pos e' by simp_all
        from offlineLoop_finished_fuel[OF fin tl'] obtain j where j: "n = Suc j" by blast
        from loop_break[OF tl' en' iteration_partial[OF live' e' dps vp' T'pos lt'], of j]
        have "view (offlineLoop (Suc j) dps p') = (s'\<lparr>enemy := Some (worn dps T' (worn dps dt e))\<rparr>, 0)" .
        with lhs j show ?thesis by (simp add: s'_def worn_worn add.commute)
      qed
    next
      case False
      then have ge: "untilResolved dps e \<le> T' + dt" by simp
      with u' have ge': "untilResolved dps (worn dps dt e) \<le> T'" by simp
      from lt u' have "0 < untilResolved dps (worn dps dt e)" by simp
      with ge' have T'pos: "0 < T'" by simp
      have tl': "0 < timeLeft p'" and en': "enemy (st p') = Some (worn dps dt e)"
        using view_state(1,2)[OF vp'] T'pos e' by simp_all
      from offlineLoop_finished_fuel[OF fin tl'] obtain j where j: "n = Suc j" by blast
      from dtpos dps have "hp e - dps * dt < hp e" by simp
      with live_hp(2)[OF live e] have nf: "isBoss (worn dps dt e) \<or> hp (worn dps dt e) < maxHp (worn dps dt e)"
        by simp
      from iteration_settles[OF live' e' dps vp' ge' nf]
      have "flowView (iteration dps (worn dps dt e) p')
              = (True, settled dps s e, T' + dt - untilResolved dps e)"
        by (simp add: s'_def settled_worn[OF dps] u')
      from loop_continue[OF tl' en' this, of j] obtain q where
        q: "view q = (settled dps s e, T' + dt - untilResolved dps e)"
        and lq: "offlineLoop (Suc j) dps p' = offlineLoop j dps q" by blast
      from fin j lq have finq: "timeLeft (offlineLoop j dps q) \<le> 0" by simp
      have "view (offlineLoop (Suc n) dps p) = view (offlineLoop j dps q)"
        by (rule loop_settles[OF live e dps v ge q finq]) (simp add: j)
      with j lq show ?thesis by simp
    qed
  qed
qed

subsection \<open>A schedule of ticks against one offline resolve\<close>

lemma fight_lastSeen: "fight dps dt (s\<lparr>lastSeen := x\<rparr>) e = (fight dps dt s e)\<lparr>lastSeen := x\<rparr>"
  by (simp add: fight_def Let_def enemyKilled_def bossEscapes_def split: option.splits)

lemma liveEncounter_lastSeen [simp]: "liveEncounter (s\<lparr>lastSeen := x\<rparr>) = liveEncounter s"
  by (simp add: liveEncounter_def split: option.splits)

lemma fight_heroes: "heroes (fight dps dt s e) = heroes s"
  by (simp add: fight_def Let_def enemyKilled_def bossEscapes_def split: option.splits)

lemma live_fight:
  assumes "liveEncounter s" and "enemy s = Some e" and "0 < dps"
    and "0 \<le> dt" and "dt \<le> untilResolved dps e"
  shows "liveEncounter (fight dps dt s e)"
proof (cases "dt = untilResolved dps e")
  case True
  with assms show ?thesis by (simp add: fight_settles live_settled)
next
  case False
  with assms(5) have "dt < untilResolved dps e" by simp
  with assms show ?thesis by (simp add: fight_wears live_worn)
qed

lemma noOvershoot_nonneg: "noOvershoot dps s sched \<Longrightarrow> 0 \<le> sum_list (map snd sched)"
proof (induction sched arbitrary: s)
  case Nil
  show ?case by simp
next
  case (Cons a sched)
  obtain now dt where a: "a = (now, dt)" by (cases a)
  from Cons.prems a obtain s' where "0 \<le> dt" "noOvershoot dps s' sched"
    by (auto split: option.splits)
  with Cons.IH[of s'] a show ?case by simp
qed

lemma ticks_against_loop:
  assumes "totalDps (heroes s) = Some dps" and "0 < dps" and "liveEncounter s"
    and "noOvershoot dps s sched"
    and "view p = (s\<lparr>lastSeen := None\<rparr>, sum_list (map snd sched))"
  shows "\<exists>s1. ticks s sched = Some s1 \<and>
           timeLeft (offlineLoop (length sched) dps p) \<le> 0 \<and>
           fst (view (offlineLoop (length sched) dps p)) = s1\<lparr>lastSeen := None\<rparr>"
  using assms
proof (induction sched arbitrary: s p)
  case Nil
  then show ?case using view_state(1,3)[OF Nil.prems(5)] by simp
next
  case (Cons a sched)
  obtain now dt where a: "a = (now, dt)" by (cases a)
  from Cons.prems(4) a obtain e s' where e: "enemy s = Some e" and dt: "0 \<le> dt" "dt \<le> untilResolved dps e"
    and t: "tick now s dt = Some s'" and rest: "noOvershoot dps s' sched"
    by (auto split: option.splits)
  from t e Cons.prems(1) have s': "s' = (fight dps dt s e)\<lparr>lastSeen := Some now\<rparr>"
    by (simp add: tick_def fight_lastSeen)
  have live': "liveEncounter s'"
    unfolding s' using live_fight[OF Cons.prems(3) e Cons.prems(2) dt] by simp
  have dps': "totalDps (heroes s') = Some dps" by (simp add: s' fight_heroes Cons.prems(1))
  define T' where "T' = sum_list (map snd sched)"
  have T': "0 \<le> T'" unfolding T'_def by (rule noOvershoot_nonneg[OF rest])
  define p' where "p' = p\<lparr>st := s', timeLeft := T'\<rparr>"
  have vp': "view p' = (s'\<lparr>lastSeen := None\<rparr>, sum_list (map snd sched))"
    by (simp add: p'_def view_def T'_def)
  from Cons.IH[OF dps' Cons.prems(2) live' rest vp'] obtain s1 where
    s1: "ticks s' sched = Some s1" and fin: "timeLeft (offlineLoop (length sched) dps p') \<le> 0"
    and res: "fst (view (offlineLoop (length sched) dps p')) = s1\<lparr>lastSeen := None\<rparr>" by blast
  let ?s = "s\<lparr>lastSeen := None\<rparr>"
  have liveN: "liveEncounter ?s" using Cons.prems(3) by simp
  have eN: "enemy ?s = Some e" using e by simp
  have v: "view p = (?s, T' + dt)" using Cons.prems(5) a by (simp add: T'_def)
  have v': "view p' = (fight dps dt ?s e, T')"
    using vp' by (simp add: s' fight_lastSeen T'_def)
  from tick_then_loop[OF liveN eN Cons.prems(2) dt v T' v' fin]
  have eq: "view (offlineLoop (Suc (length sched)) dps p) = view (offlineLoop (length sched) dps p')" .
  then have "timeLeft (offlineLoop (Suc (length sched)) dps p) = timeLeft (offlineLoop (length sched) dps p')"
    by (simp add: view_def)
  with fin eq res s1 t a show ?case by simp
qed

text \<open>
  Over exact arithmetic the agreement goes on through kills and escapes, as long as no tick
  runs past the moment the encounter it starts with is resolved: then ticks and one offline
  resolve end in the same state but for \<open>lastSeen\<close>.  Every kill of such a schedule falls on
  a tick whose damage brings \<open>hp\<close> to exactly 0, a test that the rounding of a double
  decides; so this is a fact about the arithmetic of the program, and the claim below stops
  short of the first resolution.
\<close>

lemma aligned_schedule_agrees:
  assumes "liveEncounter s" and "totalDps (heroes s) = Some dps" and "0 < dps"
    and "noOvershoot dps s sched" and "length sched \<le> 200000"
  shows "\<exists>s1 s2 r. ticks s sched = Some s1 \<and>
           simulateOffline now s (sum_list (map snd sched)) = Some (s2, r) \<and>
           gold s2 = gold s1 \<and> floorNo s2 = floorNo s1 \<and> killsThisFloor s2 = killsThisFloor s1 \<and>
           s2 = s1\<lparr>lastSeen := Some now\<rparr>"
proof -
  define T where "T = sum_list (map snd sched)"
  define p where "p = \<lparr>st = s, timeLeft = T, kills = 0, goldEarned = 0, floorsCleared = 0\<rparr>"
  have v: "view p = (s\<lparr>lastSeen := None\<rparr>, sum_list (map snd sched))"
    by (simp add: p_def view_def T_def)
  from ticks_against_loop[OF assms(2,3,1,4) v] obtain s1 where
    s1: "ticks s sched = Some s1" and fin: "timeLeft (offlineLoop (length sched) dps p) \<le> 0"
    and res: "fst (view (offlineLoop (length sched) dps p)) = s1\<lparr>lastSeen := None\<rparr>" by blast
  have full: "offlineLoop 200000 dps p = offlineLoop (length sched) dps p"
    by (rule offlineLoop_fuel_le[OF fin assms(5)])
  from assms(1) obtain e where e: "enemy s = Some e"
    by (auto simp: liveEncounter_def split: option.splits)
  have same: "(st (offlineLoop 200000 dps p))\<lparr>lastSeen := Some now\<rparr> = s1\<lparr>lastSeen := Some now\<rparr>"
  proof -
    from res full have "(st (offlineLoop 200000 dps p))\<lparr>lastSeen := None\<rparr> = s1\<lparr>lastSeen := None\<rparr>"
      by (simp add: view_def)
    then have "((st (offlineLoop 200000 dps p))\<lparr>lastSeen := None\<rparr>)\<lparr>lastSeen := Some now\<rparr>
                 = (s1\<lparr>lastSeen := None\<rparr>)\<lparr>lastSeen := Some now\<rparr>" by simp
    then show ?thesis by simp
  qed
  have "\<exists>r. simulateOffline now s T = Some (s1\<lparr>lastSeen := Some now\<rparr>, r)"
  proof (cases "T \<le> 0")
    case True
    then have "timeLeft p \<le> 0" by (simp add: p_def)
    then have "offlineLoop 200000 dps p = p" by (rule offlineLoop_no_time)
    with same have "s\<lparr>lastSeen := Some now\<rparr> = s1\<lparr>lastSeen := Some now\<rparr>" by (simp add: p_def)
    with True e assms(2) show ?thesis by (simp add: simulateOffline_def)
  next
    case False
    with e assms(2,3) same show ?thesis
      by (simp add: simulateOffline_def Let_def p_def)
  qed
  with s1 show ?thesis unfolding T_def by auto
qed

lemma aligned_schedule_example:
  "ticks \<lparr>gold = 0, lifetimeGold = 0, clickLevel = 1, floorNo = 1, killsThisFloor = 0,
          heroes = [\<lparr>heroId = 2, level = 1\<rparr>],
          enemy = Some \<lparr>maxHp = 10, hp = 10, isBoss = False, bossTimeLeft = None\<rparr>,
          lastSeen = None\<rparr> [(1, 1), (2, 1), (3, 1 / 2)]
     = Some \<lparr>gold = 0.51, lifetimeGold = 0.51, clickLevel = 1, floorNo = 1, killsThisFloor = 1,
          heroes = [\<lparr>heroId = 2, level = 1\<rparr>],
          enemy = Some \<lparr>maxHp = 10, hp = 7.5, isBoss = False, bossTimeLeft = None\<rparr>,
          lastSeen = Some 3\<rparr>
   \<and> map_option fst (simulateOffline 9
         \<lparr>gold = 0, lifetimeGold = 0, clickLevel = 1, floorNo = 1, killsThisFloor = 0,
          heroes = [\<lparr>heroId = 2, level = 1\<rparr>],
          enemy = Some \<lparr>maxHp = 10, hp = 10, isBoss = False, bossTimeLeft = None\<rparr>,
          lastSeen = None\<rparr> (5 / 2))
     = Some \<lparr>gold = 0.51, lifetimeGold = 0.51, clickLevel = 1, floorNo = 1, killsThisFloor = 1,
          heroes = [\<lparr>heroId = 2, level = 1\<rparr>],
          enemy = Some \<lparr>maxHp = 10, hp = 7.5, isBoss = False, bossTimeLeft = None\<rparr>,
          lastSeen = Some 9\<rparr>"
proof -
  let ?s = "\<lparr>gold = 0, lifetimeGold = 0, clickLevel = 1, floorNo = 1, killsThisFloor = 0,
          heroes = [\<lparr>heroId = 2, level = 1\<rparr>],
          enemy = Some \<lparr>maxHp = 10, hp = 10, isBoss = False, bossTimeLeft = None\<rparr>,
          lastSeen = None\<rparr> :: State"
  let ?sched = "[(1, 1), (2, 1), (3, 1 / 2)] :: (int \<times> real) list"
  have live: "liveEncounter ?s" by (simp add: liveEncounter_def makeEnemy_def)
  have d: "totalDps (heroes ?s) = Some 5" by (simp add: totalDps_def heroesById_def HEROES_def)
  have no: "noOvershoot 5 ?s ?sched"
    by (simp add: untilResolved_def tick_def fight_def totalDps_def heroesById_def HEROES_def
        damaged_def Let_def enemyKilled_def goldRewardFor_def makeEnemy_def)
  have t: "ticks ?s ?sched = Some \<lparr>gold = 0.51, lifetimeGold = 0.51, clickLevel = 1, floorNo = 1, killsThisFloor = 1,
          heroes = [\<lparr>heroId = 2, level = 1\<rparr>],
          enemy = Some \<lparr>maxHp = 10, hp = 7.5, isBoss = False, bossTimeLeft = None\<rparr>,
          lastSeen = Some 3\<rparr>"
    by (simp add: tick_def fight_def totalDps_def heroesById_def HEROES_def
        damaged_def Let_def enemyKilled_def goldRewardFor_def makeEnemy_def)
  have sm: "sum_list (map snd ?sched) = 5 / 2" by simp
  from aligned_schedule_agrees[OF live d _ no, of 9] t
  show ?thesis unfolding sm by auto
qed

section \<open>Ticks against the offline resolve\<close>

subsection \<open>Where ticks and the offline resolve part\<close>




lemma shortOf_mono: "shortOf n x y \<Longrightarrow> x' \<le> x \<Longrightarrow> shortOf n x' y"
  by (simp add: shortOf_def)

subsection \<open>Ticks that stop short of the encounter's resolution\<close>




subsection \<open>An offline resolve that stops short of the encounter's resolution\<close>







end
